theory Spec2Isabelle
  imports Complex_Main "HOL-Library.Word" "HOL-Library.Monad_Syntax"
begin

unbundle bit_operations_syntax

section \<open>The libvorbis encoder adapter (libavcodec/libvorbis.c)\<close>

text \<open>
  The adapter drives libvorbisenc from the codec interface of libavcodec. Everything the
  adapter itself does is embedded below: the error mapping, the encoder set-up, the
  packing of the three Vorbis headers into extradata, the staging buffer of compressed
  packets and the hand-over of one packet per call. The external encoder is opaque: it is
  a parameter of the model (an oracle that answers every call).
\<close>

subsection \<open>Machine integers\<close>

type_synonym byte = "8 word"

text \<open>A PCM sample is a 32-bit float; the adapter only copies samples, so a sample is
  its bit pattern.\<close>

type_synonym sample = "32 word"

text \<open>Conversion of a value to \<open>int\<close> (32 bits, two's complement), to \<open>unsigned int\<close>
  and to \<open>size_t\<close> (64 bits, as \<open>long\<close> is: the model is of an LP64 target).\<close>

definition to_int :: "int \<Rightarrow> int" where
  "to_int x = (x + 2 ^ 31) mod 2 ^ 32 - 2 ^ 31"

definition to_uint :: "int \<Rightarrow> int" where
  "to_uint x = x mod 2 ^ 32"

definition to_size_t :: "int \<Rightarrow> int" where
  "to_size_t x = x mod 2 ^ 64"

text \<open>C's integer division truncates towards zero.\<close>

definition c_div :: "int \<Rightarrow> int \<Rightarrow> int" where
  "c_div a b = sgn a * sgn b * (\<bar>a\<bar> div \<bar>b\<bar>)"

subsection \<open>Ogg packets\<close>

text \<open>
  \<open>ogg_packet\<close> is declared by libogg: a pointer to the payload, the payload length
  (\<open>long\<close>), two flags and two 64-bit counters. The bytes the pointer refers to travel
  beside the structure wherever the model needs them.
\<close>

record ogg_packet =
  packet :: "64 word"
  bytes :: "64 word"
  b_o_s :: "64 word"
  e_o_s :: "64 word"
  granulepos :: "64 word"
  packetno :: "64 word"

subsection \<open>The external encoder\<close>

datatype ctl_request = OV_ECTL_RATEMANAGE2_SET | OV_ECTL_LOWPASS_SET | OV_ECTL_IBLOCK_SET

text \<open>Every call the adapter makes into libvorbis, with the arguments that are data.\<close>

datatype lib_call =
    Vorbis_info_init
  | Vorbis_encode_setup_vbr int int real
  | Vorbis_encode_setup_managed int int int int int
  | Vorbis_encode_ctl ctl_request "real option"
  | Vorbis_encode_setup_init
  | Vorbis_analysis_init
  | Vorbis_block_init
  | Vorbis_comment_init
  | Vorbis_comment_add_tag string string
  | Vorbis_analysis_headerout
  | Vorbis_comment_clear
  | Vorbis_analysis_buffer int
  | Vorbis_analysis_wrote "sample list list" int
  | Vorbis_analysis_blockout
  | Vorbis_analysis
  | Vorbis_bitrate_addblock
  | Vorbis_bitrate_flushpacket
  | Vorbis_block_clear
  | Vorbis_dsp_clear
  | Vorbis_info_clear

text \<open>
  The state of the encoder (\<open>vi\<close>, \<open>vd\<close>, \<open>vb\<close>, \<open>vc\<close> of the context) is the
  history of the calls made on it, most recent first. The encoder is any function of that
  history: the value the latest call returned, the packet \<open>vorbis_bitrate_flushpacket\<close>
  filled in (with the bytes its pointer refers to), the three header packets of
  \<open>vorbis_analysis_headerout\<close>, and the field \<open>vi.channels\<close>.
\<close>

record libvorbis =
  lib_ret :: "lib_call list \<Rightarrow> int"
  lib_packet :: "lib_call list \<Rightarrow> ogg_packet \<times> byte list"
  lib_headers :: "lib_call list \<Rightarrow>
     (ogg_packet \<times> byte list) \<times> (ogg_packet \<times> byte list) \<times> (ogg_packet \<times> byte list)"
  lib_channels :: "lib_call list \<Rightarrow> int"

subsection \<open>The codec context\<close>

definition OGGVORBIS_FRAME_SIZE :: int where
  "OGGVORBIS_FRAME_SIZE = 64"

definition BUFFER_SIZE :: int where
  "BUFFER_SIZE = 1024 * 64"

record OggVorbisContext =
  vorbis :: "lib_call list"
  buffer :: "byte list"
  buffer_index :: int
  eof :: int
  dsp_initialized :: int
  iblock :: real

record AVFrame =
  pts :: int

record AVCodecContext =
  flags :: int
  bit_rate :: int
  global_quality :: int
  channels :: int
  sample_rate :: int
  rc_min_rate :: int
  rc_max_rate :: int
  cutoff :: int
  extradata :: "byte list option"
  extradata_size :: int
  frame_size :: int
  coded_frame :: "AVFrame option"
  priv_data :: OggVorbisContext

subsection \<open>What the sources use and do not define\<close>

text \<open>
  Constants of the libvorbis and libavutil headers, the channel table of vorbis_data.c,
  the time-base conversion, the address of the staging buffer and the object
  representation of \<open>ogg_packet\<close> are parameters.
\<close>

record env =
  OV_EFAULT :: int
  OV_EINVAL :: int
  OV_EIMPL :: int
  AVERROR_BUG :: int
  AVERROR_EINVAL :: int
  AVERROR_ENOMEM :: int
  AVERROR_UNKNOWN :: int
  CODEC_FLAG_QSCALE :: int
  FF_QP2LAMBDA :: int
  FF_INPUT_BUFFER_PADDING_SIZE :: nat
  LIBAVCODEC_IDENT :: string
  ff_vorbis_encoding_channel_layout_offsets :: "nat \<Rightarrow> nat \<Rightarrow> nat"
  ff_samples_to_time_base :: "AVCodecContext \<Rightarrow> 64 word \<Rightarrow> int"
  buffer_address :: "64 word"
  sizeof_ogg_packet :: nat
  put_ogg_packet :: "ogg_packet \<Rightarrow> byte list"
  get_ogg_packet :: "byte list \<Rightarrow> ogg_packet"


text \<open>A call is recorded in the encoder's history; its return value is read from there.\<close>

definition call :: "lib_call \<Rightarrow> OggVorbisContext \<Rightarrow> OggVorbisContext" where
  "call c s = s\<lparr>vorbis := c # vorbis s\<rparr>"

definition ret :: "libvorbis \<Rightarrow> OggVorbisContext \<Rightarrow> int" where
  "ret L s = lib_ret L (vorbis s)"

subsection \<open>Error mapping\<close>

definition vorbis_error_to_averror :: "env \<Rightarrow> int \<Rightarrow> int" where
  "vorbis_error_to_averror E ov_err =
     (if ov_err = OV_EFAULT E then AVERROR_BUG E
      else if ov_err = OV_EINVAL E then AVERROR_EINVAL E
      else if ov_err = OV_EIMPL E then AVERROR_EINVAL E
      else AVERROR_UNKNOWN E)"


subsection \<open>Encoder set-up\<close>

definition vcall :: "lib_call \<Rightarrow> AVCodecContext \<Rightarrow> AVCodecContext" where
  "vcall c avctx = avctx\<lparr>priv_data := call c (priv_data avctx)\<rparr>"

definition vret :: "libvorbis \<Rightarrow> AVCodecContext \<Rightarrow> int" where
  "vret L avctx = ret L (priv_data avctx)"

text \<open>
  One guarded call of \<open>oggvorbis_init_encoder\<close>, \<open>if (cond) if ((ret = call)) goto
  error;\<close>, on the pair of \<open>ret\<close> and the context: once \<open>ret\<close> is not 0 control is at
  \<open>error\<close> and the statement is not reached.
\<close>

definition step ::
  "libvorbis \<Rightarrow> bool \<Rightarrow> lib_call \<Rightarrow> int \<times> AVCodecContext \<Rightarrow> int \<times> AVCodecContext" where
  "step L cond c ra =
     (if fst ra \<noteq> 0 \<or> \<not> cond then ra
      else (vret L (vcall c (snd ra)), vcall c (snd ra)))"

text \<open>
  \<open>oggvorbis_init_encoder\<close>. The quality is computed in \<open>float\<close> and \<open>double\<close> in the
  source; the model computes it in the reals, without rounding.
\<close>

definition oggvorbis_init_encoder ::
  "env \<Rightarrow> libvorbis \<Rightarrow> AVCodecContext \<Rightarrow> int \<times> AVCodecContext" where
  "oggvorbis_init_encoder E L avctx =
     (let s = priv_data avctx;
          rate =
            (if flags avctx AND CODEC_FLAG_QSCALE E \<noteq> 0 \<or> bit_rate avctx = 0 then
               let q = real_of_int (global_quality avctx) / real_of_int (FF_QP2LAMBDA E);
                   q' = (if flags avctx AND CODEC_FLAG_QSCALE E = 0 then 3 else q)
               in step L True
                    (Vorbis_encode_setup_vbr (channels avctx) (sample_rate avctx) (q' / 10))
                    (0, avctx)
             else
               let minrate = (if rc_min_rate avctx > 0 then rc_min_rate avctx else - 1);
                   maxrate = (if rc_max_rate avctx > 0 then rc_max_rate avctx else - 1)
               in step L (minrate = - 1 \<and> maxrate = - 1)
                    (Vorbis_encode_ctl OV_ECTL_RATEMANAGE2_SET None)
                    (step L True
                       (Vorbis_encode_setup_managed (channels avctx) (sample_rate avctx)
                          maxrate (bit_rate avctx) minrate)
                       (0, avctx)));
          lowpass =
            step L (cutoff avctx > 0)
              (Vorbis_encode_ctl OV_ECTL_LOWPASS_SET (Some (real_of_int (cutoff avctx) / 1000)))
              rate;
          impulse =
            step L (iblock s \<noteq> 0) (Vorbis_encode_ctl OV_ECTL_IBLOCK_SET (Some (iblock s)))
              lowpass;
          ready = step L True Vorbis_encode_setup_init impulse
      in if fst ready \<noteq> 0 then (vorbis_error_to_averror E (fst ready), snd ready)
         else (0, snd ready))"

subsection \<open>Header packing\<close>

definition xiph_len :: "int \<Rightarrow> int" where
  "xiph_len l = 1 + c_div l 255 + l"

text \<open>
  Modelled from the spec: \<open>av_xiphlacing\<close> is code of libavcodec that is not among the
  sources. Xiph lacing writes an unsigned length \<open>v\<close> as one byte 255 for every full 255
  in \<open>v\<close>, then one byte holding the rest, and returns the number of bytes written. The
  model returns the bytes written and that number.
\<close>

function av_xiphlacing :: "nat \<Rightarrow> byte list \<times> nat" where
  "av_xiphlacing v =
     (if v \<ge> 255 then (let (bs, n) = av_xiphlacing (v - 255) in (255 # bs, n + 1))
      else ([of_nat v], 1))"
  by pat_completeness auto
termination
  by (relation "measure id") auto

declare av_xiphlacing.simps [simp del]

text \<open>Memory accesses: a store or a load outside the object is no value (the C program
  has no defined behaviour there).\<close>

definition store :: "byte list \<Rightarrow> int \<Rightarrow> byte list \<Rightarrow> byte list option" where
  "store mem off src =
     (if 0 \<le> off \<and> off + int (length src) \<le> int (length mem)
      then Some (take (nat off) mem @ src @ drop (nat off + length src) mem)
      else None)"

definition load :: "byte list \<Rightarrow> int \<Rightarrow> int \<Rightarrow> byte list option" where
  "load mem off n =
     (if 0 \<le> off \<and> 0 \<le> n \<and> off + n \<le> int (length mem)
      then Some (take (nat n) (drop (nat off) mem))
      else None)"

text \<open>What a C function does: it returns a value and leaves a state, or it stops at a
  failed \<open>assert\<close>, or it accesses memory out of bounds.\<close>

datatype 'a outcome = Fault | Abort | Return int 'a

text \<open>The allocator: \<open>av_malloc\<close> gives no memory or a block of the size asked with
  unspecified contents; \<open>avcodec_alloc_frame\<close> gives no frame or a frame.\<close>

record heap =
  av_malloc :: "int \<Rightarrow> (nat \<Rightarrow> byte) option"
  avcodec_alloc_frame :: "AVFrame option"

definition oggvorbis_encode_close :: "AVCodecContext \<Rightarrow> int \<times> AVCodecContext" where
  "oggvorbis_encode_close avctx =
     (let a1 = (if dsp_initialized (priv_data avctx) \<noteq> 0
                then vcall (Vorbis_analysis_wrote [] 0) avctx else avctx);
          a2 = vcall Vorbis_block_clear a1;
          a3 = vcall Vorbis_dsp_clear a2;
          a4 = vcall Vorbis_info_clear a3
      in (0, a4\<lparr>coded_frame := None, extradata := None\<rparr>))"

text \<open>The error exit of \<open>oggvorbis_encode_init\<close>.\<close>

definition init_error :: "int \<Rightarrow> AVCodecContext \<Rightarrow> AVCodecContext outcome" where
  "init_error r avctx = Return r (snd (oggvorbis_encode_close avctx))"

text \<open>The part of \<open>oggvorbis_encode_init\<close> that fills the allocated extradata
  \<open>p\<close> (from \<open>p[0] = 2\<close> to the last \<open>memcpy\<close>); it gives the memory and the
  final \<open>offset\<close>.\<close>

definition pack_headers ::
  "byte list \<Rightarrow> (ogg_packet \<times> byte list) \<Rightarrow> (ogg_packet \<times> byte list) \<Rightarrow>
   (ogg_packet \<times> byte list) \<Rightarrow> (byte list \<times> int) option" where
  "pack_headers p hdr hdr_comm hdr_code =
     (let (header, m) = hdr; (header_comm, mc) = hdr_comm; (header_code, ms) = hdr_code;
          lace1 = av_xiphlacing (nat (to_uint (sint (bytes header))));
          lace2 = av_xiphlacing (nat (to_uint (sint (bytes header_comm))));
          offset1 = to_uint (1 + int (snd lace1));
          offset2 = to_uint (offset1 + int (snd lace2));
          offset3 = to_uint (offset2 + sint (bytes header));
          offset4 = to_uint (offset3 + sint (bytes header_comm));
          offset5 = to_uint (offset4 + sint (bytes header_code))
      in do {
        p0 \<leftarrow> store p 0 [2];
        p1 \<leftarrow> store p0 1 (fst lace1);
        p2 \<leftarrow> store p1 offset1 (fst lace2);
        d1 \<leftarrow> load m 0 (uint (bytes header));
        p3 \<leftarrow> store p2 offset2 d1;
        d2 \<leftarrow> load mc 0 (uint (bytes header_comm));
        p4 \<leftarrow> store p3 offset3 d2;
        d3 \<leftarrow> load ms 0 (uint (bytes header_code));
        p5 \<leftarrow> store p4 offset4 d3;
        Some (p5, offset5)
      })"

text \<open>The first part of \<open>oggvorbis_encode_init\<close>, up to the headers: \<open>Inl\<close> is a
  \<open>goto error\<close> with the value of \<open>ret\<close>.\<close>

definition init_calls ::
  "env \<Rightarrow> libvorbis \<Rightarrow> AVCodecContext \<Rightarrow> int \<times> AVCodecContext + AVCodecContext" where
  "init_calls E L avctx =
     (let a0 = vcall Vorbis_info_init avctx;
          ra = oggvorbis_init_encoder E L a0 in
      if fst ra \<noteq> 0 then Inl ra
      else
        let a2 = vcall Vorbis_analysis_init (snd ra) in
        if vret L a2 \<noteq> 0 then Inl (vorbis_error_to_averror E (vret L a2), a2)
        else
          let a3 = a2\<lparr>priv_data := (priv_data a2)\<lparr>dsp_initialized := 1\<rparr>\<rparr>;
              a4 = vcall Vorbis_block_init a3 in
          if vret L a4 \<noteq> 0 then Inl (vorbis_error_to_averror E (vret L a4), a4)
          else
            let a5 = vcall Vorbis_comment_init a4;
                a6 = vcall (Vorbis_comment_add_tag ''encoder'' (LIBAVCODEC_IDENT E)) a5;
                a7 = vcall Vorbis_analysis_headerout a6 in
            if vret L a7 \<noteq> 0 then Inl (vorbis_error_to_averror E (vret L a7), a7)
            else Inr a7)"

definition oggvorbis_encode_init ::
  "env \<Rightarrow> libvorbis \<Rightarrow> heap \<Rightarrow> AVCodecContext \<Rightarrow> AVCodecContext outcome" where
  "oggvorbis_encode_init E L H avctx =
     (case init_calls E L avctx of
        Inl (r, a) \<Rightarrow> init_error r a
      | Inr a7 \<Rightarrow>
          let (hdr, hdr_comm, hdr_code) = lib_headers L (vorbis (priv_data a7));
              size = to_int (1 + xiph_len (to_int (sint (bytes (fst hdr))))
                               + xiph_len (to_int (sint (bytes (fst hdr_comm))))
                               + sint (bytes (fst hdr_code)));
              a8 = a7\<lparr>extradata_size := size\<rparr>;
              total = to_size_t (to_int (size + int (FF_INPUT_BUFFER_PADDING_SIZE E))) in
          (case av_malloc H total of
             None \<Rightarrow> init_error (AVERROR_ENOMEM E) (a8\<lparr>extradata := None\<rparr>)
           | Some junk \<Rightarrow>
               (case pack_headers (map junk [0..<nat total]) hdr hdr_comm hdr_code of
                  None \<Rightarrow> Fault
                | Some (p, offset) \<Rightarrow>
                    if offset \<noteq> to_uint size then Abort
                    else
                      let a9 = vcall Vorbis_comment_clear (a8\<lparr>extradata := Some p\<rparr>);
                          a10 = a9\<lparr>frame_size := OGGVORBIS_FRAME_SIZE\<rparr> in
                      (case avcodec_alloc_frame H of
                         None \<Rightarrow> init_error (AVERROR_ENOMEM E) (a10\<lparr>coded_frame := None\<rparr>)
                       | Some fr \<Rightarrow> Return 0 (a10\<lparr>coded_frame := Some fr\<rparr>)))))"

subsection \<open>Encoding a frame\<close>

text \<open>
  The two \<open>for\<close> loops that fill the analysis buffer of libvorbis: row \<open>c\<close>, column
  \<open>i\<close> is \<open>buffer[c][i]\<close>. The caller's samples are the memory behind \<open>data\<close>. The
  buffer belongs to the encoder; its contents reach it with \<open>vorbis_analysis_wrote\<close>.
\<close>

definition analysis_buffer ::
  "env \<Rightarrow> int \<Rightarrow> int \<Rightarrow> (nat \<Rightarrow> sample) \<Rightarrow> sample list list" where
  "analysis_buffer E chans samples audio =
     map (\<lambda>c. let co = (if chans > 8 then c
                         else ff_vorbis_encoding_channel_layout_offsets E (nat (chans - 1)) c)
               in map (\<lambda>i. audio (i * nat chans + co)) [0..<nat samples])
         [0..<nat chans]"

text \<open>The body of the inner \<open>while\<close> loop: the bound check and the two \<open>memcpy\<close>
  into the staging buffer. The sum of the check is computed in \<open>size_t\<close>.\<close>

datatype staging = Stage_fault | Stage_overflow | Staged OggVorbisContext

definition stage_packet ::
  "env \<Rightarrow> OggVorbisContext \<Rightarrow> ogg_packet \<times> byte list \<Rightarrow> staging" where
  "stage_packet E s opm =
     (let (op, mem) = opm in
      if to_size_t (buffer_index s + int (sizeof_ogg_packet E) + sint (bytes op)) > BUFFER_SIZE
      then Stage_overflow
      else
        (case store (buffer s) (buffer_index s) (put_ogg_packet E op) of
           None \<Rightarrow> Stage_fault
         | Some b1 \<Rightarrow>
             let i1 = to_int (to_size_t (buffer_index s + int (sizeof_ogg_packet E))) in
             (case load mem 0 (uint (bytes op)) of
                None \<Rightarrow> Stage_fault
              | Some payload \<Rightarrow>
                  (case store b1 i1 payload of
                     None \<Rightarrow> Stage_fault
                   | Some b2 \<Rightarrow>
                       Staged (s\<lparr>buffer := b2,
                                 buffer_index := to_int (i1 + sint (bytes op))\<rparr>)))))"

text \<open>How a loop ends: out of bounds, by a \<open>return\<close> of the function, or with the
  last value of \<open>ret\<close>. A loop that never ends has no value.\<close>

datatype loop_exit =
    Loop_fault
  | Loop_return int OggVorbisContext
  | Loop_done int OggVorbisContext

partial_function (option) flush_packets ::
  "env \<Rightarrow> libvorbis \<Rightarrow> OggVorbisContext \<Rightarrow> loop_exit option" where
  "flush_packets E L s =
     (let s1 = call Vorbis_bitrate_flushpacket s in
      if ret L s1 = 1 then
        (case stage_packet E s1 (lib_packet L (vorbis s1)) of
           Stage_fault \<Rightarrow> Some Loop_fault
         | Stage_overflow \<Rightarrow> Some (Loop_return (- 1) s1)
         | Staged s2 \<Rightarrow> flush_packets E L s2)
      else Some (Loop_done (ret L s1) s1))"

partial_function (option) retrieve_packets ::
  "env \<Rightarrow> libvorbis \<Rightarrow> OggVorbisContext \<Rightarrow> loop_exit option" where
  "retrieve_packets E L s =
     (let s1 = call Vorbis_analysis_blockout s in
      if ret L s1 = 1 then
        (let s2 = call Vorbis_analysis s1 in
         if ret L s2 < 0 then Some (Loop_done (ret L s2) s2)
         else
           let s3 = call Vorbis_bitrate_addblock s2 in
           if ret L s3 < 0 then Some (Loop_done (ret L s3) s3)
           else
             (case flush_packets E L s3 of
                None \<Rightarrow> None
              | Some Loop_fault \<Rightarrow> Some Loop_fault
              | Some (Loop_return r s4) \<Rightarrow> Some (Loop_return r s4)
              | Some (Loop_done r s4) \<Rightarrow>
                  if r < 0 then Some (Loop_done r s4) else retrieve_packets E L s4))
      else Some (Loop_done (ret L s1) s1))"

text \<open>The first part of \<open>oggvorbis_encode_frame\<close>: the samples, or the end of the
  stream, are sent to libvorbis. \<open>Inl\<close> is the early \<open>return\<close>.\<close>

definition send_samples ::
  "env \<Rightarrow> libvorbis \<Rightarrow> AVCodecContext \<Rightarrow> (nat \<Rightarrow> sample) option \<Rightarrow>
   int \<times> OggVorbisContext + OggVorbisContext" where
  "send_samples E L avctx data =
     (let s = priv_data avctx in
      case data of
        Some audio \<Rightarrow>
          let samples = frame_size avctx;
              chans = lib_channels L (vorbis s);
              s1 = call (Vorbis_analysis_buffer samples) s;
              s2 = call (Vorbis_analysis_wrote (analysis_buffer E chans samples audio)
                           samples) s1
          in if ret L s2 < 0 then Inl (vorbis_error_to_averror E (ret L s2), s2) else Inr s2
      | None \<Rightarrow>
          if eof s = 0 then
            (let s1 = call (Vorbis_analysis_wrote [] 0) s
             in if ret L s1 < 0 then Inl (vorbis_error_to_averror E (ret L s1), s1)
                else Inr (s1\<lparr>eof := 1\<rparr>))
          else Inr (s\<lparr>eof := 1\<rparr>))"

text \<open>The last part: the oldest staged packet goes to the caller's buffer
  \<open>packets\<close> of \<open>buf_size\<close> bytes. The result holds the bytes written there.\<close>

definition output_packet ::
  "env \<Rightarrow> AVCodecContext \<Rightarrow> int \<Rightarrow> (AVCodecContext \<times> byte list) outcome" where
  "output_packet E avctx buf_size =
     (let s = priv_data avctx; sz = int (sizeof_ogg_packet E) in
      if buffer_index s \<noteq> 0 then
        (case load (buffer s) 0 sz of
           None \<Rightarrow> Fault
         | Some hdr \<Rightarrow>
             let op2 = (get_ogg_packet E hdr)\<lparr>packet := buffer_address E + of_int sz\<rparr> in
             (case store (buffer s) 0 (put_ogg_packet E op2) of
                None \<Rightarrow> Fault
              | Some b1 \<Rightarrow>
                  let pkt_size = to_int (sint (bytes op2)) in
                  (case coded_frame avctx of
                     None \<Rightarrow> Fault
                   | Some fr \<Rightarrow>
                       let fr1 = fr\<lparr>pts := ff_samples_to_time_base E avctx (granulepos op2)\<rparr>;
                           a1 = avctx\<lparr>coded_frame := Some fr1,
                                      priv_data := s\<lparr>buffer := b1\<rparr>\<rparr>
                       in
                       if pkt_size > buf_size then Return (- 1) (a1, [])
                       else if to_size_t pkt_size > buf_size then Fault
                       else
                         (case load b1 sz (to_size_t pkt_size) of
                            None \<Rightarrow> Fault
                          | Some out \<Rightarrow>
                              let i1 = to_int (to_size_t (buffer_index s)
                                                - to_size_t (pkt_size + sz)) in
                              (case load b1 (pkt_size + sz) (to_size_t i1) of
                                 None \<Rightarrow> Fault
                               | Some rest \<Rightarrow>
                                   (case store b1 0 rest of
                                      None \<Rightarrow> Fault
                                    | Some b2 \<Rightarrow>
                                        Return pkt_size
                                          (a1\<lparr>priv_data :=
                                               s\<lparr>buffer := b2, buffer_index := i1\<rparr>\<rparr>,
                                           out)))))))
      else Return 0 (avctx, []))"

definition oggvorbis_encode_frame ::
  "env \<Rightarrow> libvorbis \<Rightarrow> AVCodecContext \<Rightarrow> int \<Rightarrow> (nat \<Rightarrow> sample) option \<Rightarrow>
   (AVCodecContext \<times> byte list) outcome option" where
  "oggvorbis_encode_frame E L avctx buf_size data =
     (case send_samples E L avctx data of
        Inl (r, s1) \<Rightarrow> Some (Return r (avctx\<lparr>priv_data := s1\<rparr>, []))
      | Inr s1 \<Rightarrow>
          (case retrieve_packets E L s1 of
             None \<Rightarrow> None
           | Some Loop_fault \<Rightarrow> Some Fault
           | Some (Loop_return r s2) \<Rightarrow> Some (Return r (avctx\<lparr>priv_data := s2\<rparr>, []))
           | Some (Loop_done r s2) \<Rightarrow>
               if r < 0
               then Some (Return (vorbis_error_to_averror E r) (avctx\<lparr>priv_data := s2\<rparr>, []))
               else Some (output_packet E (avctx\<lparr>priv_data := s2\<rparr>) buf_size)))"

subsection \<open>Contracts of the parameters\<close>

text \<open>The case labels of a \<open>switch\<close> are distinct, or the program does not compile.\<close>

definition switch_ok :: "env \<Rightarrow> bool" where
  "switch_ok E \<longleftrightarrow> distinct [OV_EFAULT E, OV_EINVAL E, OV_EIMPL E]"

text \<open>The error codes of libavutil are negative.\<close>

definition averror_ok :: "env \<Rightarrow> bool" where
  "averror_ok E \<longleftrightarrow>
     AVERROR_BUG E < 0 \<and> AVERROR_EINVAL E < 0 \<and> AVERROR_ENOMEM E < 0 \<and> AVERROR_UNKNOWN E < 0"

text \<open>The object representation of an \<open>ogg_packet\<close> has \<open>sizeof(ogg_packet)\<close> bytes,
  the structure read back from it is the one written, and one structure fits the
  staging buffer.\<close>

definition layout_ok :: "env \<Rightarrow> bool" where
  "layout_ok E \<longleftrightarrow>
     int (sizeof_ogg_packet E) \<le> BUFFER_SIZE \<and>
     (\<forall>h. length (put_ogg_packet E h) = sizeof_ogg_packet E) \<and>
     (\<forall>h. get_ogg_packet E (put_ogg_packet E h) = h)"

text \<open>A packet of libvorbis: \<open>bytes\<close> is not negative and the pointer refers to at
  least that many bytes.\<close>

definition packet_ok :: "ogg_packet \<times> byte list \<Rightarrow> bool" where
  "packet_ok opm \<longleftrightarrow> 0 \<le> sint (bytes (fst opm)) \<and> sint (bytes (fst opm)) \<le> int (length (snd opm))"

definition payload :: "ogg_packet \<times> byte list \<Rightarrow> byte list" where
  "payload opm = take (nat (sint (bytes (fst opm)))) (snd opm)"

definition lib_ok :: "libvorbis \<Rightarrow> bool" where
  "lib_ok L \<longleftrightarrow>
     (\<forall>h. lib_ret L (Vorbis_bitrate_flushpacket # h) = 1 \<longrightarrow>
          packet_ok (lib_packet L (Vorbis_bitrate_flushpacket # h)))"

text \<open>The three header packets are packets, the lengths of the first two fit an
  \<open>int\<close>, and so does the size of the extradata.\<close>

definition headers_ok ::
  "(ogg_packet \<times> byte list) \<times> (ogg_packet \<times> byte list) \<times> (ogg_packet \<times> byte list) \<Rightarrow> bool"
  where
  "headers_ok hs \<longleftrightarrow>
     (let (h1, h2, h3) = hs in
      packet_ok h1 \<and> packet_ok h2 \<and> packet_ok h3 \<and>
      1 + xiph_len (sint (bytes (fst h1))) + xiph_len (sint (bytes (fst h2)))
        + sint (bytes (fst h3)) < 2 ^ 31)"

text \<open>The header packets libvorbis gives are such packets, and the size of the
  extradata with its padding fits an \<open>int\<close>.\<close>

definition lib_headers_ok :: "env \<Rightarrow> libvorbis \<Rightarrow> bool" where
  "lib_headers_ok E L \<longleftrightarrow>
     (\<forall>h. headers_ok (lib_headers L h) \<and>
          (let (h1, h2, h3) = lib_headers L h in
           1 + xiph_len (sint (bytes (fst h1))) + xiph_len (sint (bytes (fst h2)))
             + sint (bytes (fst h3)) + int (FF_INPUT_BUFFER_PADDING_SIZE E) < 2 ^ 31))"

text \<open>The calls whose \<open>int\<close> result the caller receives: a negative result is an
  error of libvorbis.\<close>

fun status_call :: "lib_call \<Rightarrow> bool" where
  "status_call (Vorbis_encode_setup_vbr c r q) = True"
| "status_call (Vorbis_encode_setup_managed c r mx b mn) = True"
| "status_call (Vorbis_encode_ctl q a) = True"
| "status_call Vorbis_encode_setup_init = True"
| "status_call Vorbis_analysis_init = True"
| "status_call Vorbis_block_init = True"
| "status_call Vorbis_analysis_headerout = True"
| "status_call (Vorbis_analysis_wrote b n) = True"
| "status_call Vorbis_analysis_blockout = True"
| "status_call Vorbis_analysis = True"
| "status_call Vorbis_bitrate_addblock = True"
| "status_call Vorbis_bitrate_flushpacket = True"
| "status_call c = False"

subsection \<open>The staging buffer as a queue\<close>

text \<open>A staged packet is its structure followed by its payload.\<close>

definition wire :: "env \<Rightarrow> ogg_packet \<times> byte list \<Rightarrow> byte list" where
  "wire E hm = put_ogg_packet E (fst hm) @ snd hm"

definition staged_size :: "env \<Rightarrow> ogg_packet \<times> byte list \<Rightarrow> int" where
  "staged_size E hm = int (sizeof_ogg_packet E) + int (length (snd hm))"

text \<open>\<open>staged E s ps\<close>: the first \<open>buffer_index\<close> bytes of the buffer are the packets
  \<open>ps\<close>, oldest first, each with a payload as long as its \<open>bytes\<close> says.\<close>

definition staged :: "env \<Rightarrow> OggVorbisContext \<Rightarrow> (ogg_packet \<times> byte list) list \<Rightarrow> bool" where
  "staged E s ps \<longleftrightarrow>
     int (length (buffer s)) = BUFFER_SIZE \<and>
     0 \<le> buffer_index s \<and> buffer_index s \<le> BUFFER_SIZE \<and>
     take (nat (buffer_index s)) (buffer s) = concat (map (wire E) ps) \<and>
     list_all (\<lambda>hm. sint (bytes (fst hm)) = int (length (snd hm))) ps"

text \<open>The oldest header with its pointer set to the payload behind it, as
  \<open>op2->packet = s->buffer + sizeof(ogg_packet)\<close> leaves it.\<close>

definition repointed :: "env \<Rightarrow> ogg_packet \<times> byte list \<Rightarrow> ogg_packet \<times> byte list" where
  "repointed E hm =
     ((fst hm)\<lparr>packet := buffer_address E + of_int (int (sizeof_ogg_packet E))\<rparr>, snd hm)"

subsection \<open>What a call does to the encoder and to the queue\<close>

text \<open>The calls of the retrieval loops.\<close>

definition loop_calls :: "lib_call set" where
  "loop_calls = {Vorbis_analysis_blockout, Vorbis_analysis, Vorbis_bitrate_addblock,
                 Vorbis_bitrate_flushpacket}"

text \<open>For the calls \<open>new\<close> made after the history \<open>h\<close> (most recent first): the
  status values they returned, most recent first, and the packets that
  \<open>vorbis_bitrate_flushpacket\<close> handed over with the value 1, oldest first.\<close>

fun returns :: "libvorbis \<Rightarrow> lib_call list \<Rightarrow> lib_call list \<Rightarrow> int list" where
  "returns L [] h = []"
| "returns L (c # new) h =
     (if status_call c then [lib_ret L (c # new @ h)] else []) @ returns L new h"

fun flushed ::
  "libvorbis \<Rightarrow> lib_call list \<Rightarrow> lib_call list \<Rightarrow> (ogg_packet \<times> byte list) list" where
  "flushed L [] h = []"
| "flushed L (c # new) h =
     flushed L new h @
     (if c = Vorbis_bitrate_flushpacket \<and> lib_ret L (c # new @ h) = 1
      then [(fst (lib_packet L (c # new @ h)), payload (lib_packet L (c # new @ h)))]
      else [])"

definition clean :: "libvorbis \<Rightarrow> lib_call list \<Rightarrow> lib_call list \<Rightarrow> bool" where
  "clean L new h \<longleftrightarrow> list_all (\<lambda>x. 0 \<le> x) (returns L new h)"

text \<open>\<open>retrieved E L ps s new s'\<close>: from \<open>s\<close>, where the queue was \<open>ps\<close>, the loops
  made the calls \<open>new\<close> and reached \<open>s'\<close>: every packet handed over is queued behind
  \<open>ps\<close>, nothing else of the context has changed.\<close>

definition retrieved ::
  "env \<Rightarrow> libvorbis \<Rightarrow> (ogg_packet \<times> byte list) list \<Rightarrow> OggVorbisContext \<Rightarrow>
   lib_call list \<Rightarrow> OggVorbisContext \<Rightarrow> bool" where
  "retrieved E L ps s new s' \<longleftrightarrow>
     vorbis s' = new @ vorbis s \<and> set new \<subseteq> loop_calls \<and>
     staged E s' (ps @ flushed L new (vorbis s)) \<and>
     eof s' = eof s \<and> dsp_initialized s' = dsp_initialized s \<and> iblock s' = iblock s"

text \<open>How the loops end when they start from \<open>s\<close> with the queue \<open>ps\<close>: never out of
  bounds; by \<open>return -1\<close> right after a packet that does not fit was handed over; or
  with \<open>ret\<close> the value of the last call, every earlier call having succeeded.\<close>

definition retrieval_exit ::
  "env \<Rightarrow> libvorbis \<Rightarrow> (ogg_packet \<times> byte list) list \<Rightarrow> OggVorbisContext \<Rightarrow>
   loop_exit \<Rightarrow> bool" where
  "retrieval_exit E L ps s out =
     (case out of
        Loop_fault \<Rightarrow> False
      | Loop_return r s' \<Rightarrow>
          r = - 1 \<and>
          (\<exists>new sk. s' = call Vorbis_bitrate_flushpacket sk \<and> retrieved E L ps s new sk \<and>
             clean L new (vorbis s) \<and> ret L s' = 1 \<and>
             BUFFER_SIZE < buffer_index sk
               + staged_size E (fst (lib_packet L (vorbis s')), payload (lib_packet L (vorbis s'))))
      | Loop_done r s' \<Rightarrow>
          r = ret L s' \<and>
          (\<exists>c new. retrieved E L ps s (c # new) s' \<and> clean L new (vorbis s)))"

text \<open>\<open>made s new s'\<close>: the loops made the calls \<open>new\<close> between \<open>s\<close> and \<open>s'\<close> and
  left the flags of the context alone. \<open>calls_exit\<close> is how the loops end, whatever the
  buffer holds: the value of \<open>ret\<close> is that of the last call, and no earlier call
  failed.\<close>

definition made :: "OggVorbisContext \<Rightarrow> lib_call list \<Rightarrow> OggVorbisContext \<Rightarrow> bool" where
  "made s new s' \<longleftrightarrow>
     vorbis s' = new @ vorbis s \<and> set new \<subseteq> loop_calls \<and>
     eof s' = eof s \<and> dsp_initialized s' = dsp_initialized s \<and> iblock s' = iblock s"

definition calls_exit :: "libvorbis \<Rightarrow> OggVorbisContext \<Rightarrow> loop_exit \<Rightarrow> bool" where
  "calls_exit L s out =
     (case out of
        Loop_fault \<Rightarrow> True
      | Loop_return r s' \<Rightarrow>
          r = - 1 \<and> ret L s' = 1 \<and>
          (\<exists>new. made s (Vorbis_bitrate_flushpacket # new) s' \<and> clean L new (vorbis s))
      | Loop_done r s' \<Rightarrow>
          r = ret L s' \<and> (\<exists>c new. made s (c # new) s' \<and> clean L new (vorbis s)))"

text \<open>The calls of the first part of \<open>oggvorbis_encode_frame\<close>, most recent
  first.\<close>

definition send_calls ::
  "env \<Rightarrow> libvorbis \<Rightarrow> AVCodecContext \<Rightarrow> (nat \<Rightarrow> sample) option \<Rightarrow> lib_call list" where
  "send_calls E L avctx data =
     (case data of
        Some audio \<Rightarrow>
          [Vorbis_analysis_wrote
             (analysis_buffer E (lib_channels L (vorbis (priv_data avctx))) (frame_size avctx)
                audio)
             (frame_size avctx),
           Vorbis_analysis_buffer (frame_size avctx)]
      | None \<Rightarrow> if eof (priv_data avctx) = 0 then [Vorbis_analysis_wrote [] 0] else [])"

text \<open>The calls made since the history \<open>h\<close>, when the history is \<open>h'\<close>; the two
  calls that choose the rate mode; and the headers \<open>oggvorbis_encode_init\<close> receives
  from \<open>vorbis_analysis_headerout\<close>.\<close>

definition calls_since :: "lib_call list \<Rightarrow> lib_call list \<Rightarrow> lib_call list" where
  "calls_since h h' = take (length h' - length h) h'"

fun rate_setup :: "lib_call \<Rightarrow> bool" where
  "rate_setup (Vorbis_encode_setup_vbr c r q) = True"
| "rate_setup (Vorbis_encode_setup_managed c r mx b mn) = True"
| "rate_setup c = False"

text \<open>The call of \<open>oggvorbis_init_encoder\<close> that chooses the rate mode.\<close>

definition rate_call :: "env \<Rightarrow> AVCodecContext \<Rightarrow> lib_call" where
  "rate_call E a =
     (if flags a AND CODEC_FLAG_QSCALE E \<noteq> 0 \<or> bit_rate a = 0
      then Vorbis_encode_setup_vbr (channels a) (sample_rate a)
             ((if flags a AND CODEC_FLAG_QSCALE E = 0 then 3
               else real_of_int (global_quality a) / real_of_int (FF_QP2LAMBDA E)) / 10)
      else Vorbis_encode_setup_managed (channels a) (sample_rate a)
             (if rc_max_rate a > 0 then rc_max_rate a else - 1) (bit_rate a)
             (if rc_min_rate a > 0 then rc_min_rate a else - 1))"

definition init_headers ::
  "env \<Rightarrow> libvorbis \<Rightarrow> AVCodecContext \<Rightarrow>
   (ogg_packet \<times> byte list) \<times> (ogg_packet \<times> byte list) \<times> (ogg_packet \<times> byte list)" where
  "init_headers E L avctx =
     lib_headers L
       ([Vorbis_analysis_headerout, Vorbis_comment_add_tag ''encoder'' (LIBAVCODEC_IDENT E),
         Vorbis_comment_init, Vorbis_block_init, Vorbis_analysis_init]
        @ vorbis (priv_data (snd (oggvorbis_init_encoder E L (vcall Vorbis_info_init avctx)))))"

text \<open>\<open>traced L a new ra\<close>: the calls \<open>new\<close> were made on the context \<open>a\<close> and
  nothing else of it has changed; \<open>ret\<close> is 0 and all of them returned 0, or \<open>ret\<close>
  is what the last call with a status returned and the others returned 0.\<close>

definition traced ::
  "libvorbis \<Rightarrow> AVCodecContext \<Rightarrow> lib_call list \<Rightarrow> int \<times> AVCodecContext \<Rightarrow> bool" where
  "traced L a new ra \<longleftrightarrow>
     snd ra = a\<lparr>priv_data := (priv_data a)\<lparr>vorbis := new @ vorbis (priv_data a)\<rparr>\<rparr> \<and>
     ((fst ra = 0 \<and> list_all (\<lambda>x. x = 0) (returns L new (vorbis (priv_data a)))) \<or>
      (\<exists>zs. returns L new (vorbis (priv_data a)) = fst ra # zs \<and> list_all (\<lambda>x. x = 0) zs))"

text \<open>The encoder has finitely many blocks and packets to give: there is a number
  \<open>pending\<close> of the history that no call of the retrieval loops raises and that every
  block and every packet handed over lowers.\<close>

definition lib_finite :: "libvorbis \<Rightarrow> (lib_call list \<Rightarrow> nat) \<Rightarrow> bool" where
  "lib_finite L pending \<longleftrightarrow>
     (\<forall>c h. c \<in> loop_calls \<longrightarrow> pending (c # h) \<le> pending h) \<and>
     (\<forall>h. lib_ret L (Vorbis_analysis_blockout # h) = 1 \<longrightarrow>
          pending (Vorbis_analysis_blockout # h) < pending h) \<and>
     (\<forall>h. lib_ret L (Vorbis_bitrate_flushpacket # h) = 1 \<longrightarrow>
          pending (Vorbis_bitrate_flushpacket # h) < pending h)"

text \<open>What an invocation that received the context \<open>avctx\<close> and left \<open>a'\<close> did: the
  calls it made (most recent first), the status values they returned (most recent
  first) and the packets \<open>vorbis_bitrate_flushpacket\<close> handed over (oldest first).
  \<open>queue_size\<close> is the number of bytes a queue takes in the staging buffer.\<close>

definition frame_calls :: "AVCodecContext \<Rightarrow> AVCodecContext \<Rightarrow> lib_call list" where
  "frame_calls avctx a' = calls_since (vorbis (priv_data avctx)) (vorbis (priv_data a'))"

definition answers :: "libvorbis \<Rightarrow> AVCodecContext \<Rightarrow> AVCodecContext \<Rightarrow> int list" where
  "answers L avctx a' = returns L (frame_calls avctx a') (vorbis (priv_data avctx))"

definition handed ::
  "libvorbis \<Rightarrow> AVCodecContext \<Rightarrow> AVCodecContext \<Rightarrow> (ogg_packet \<times> byte list) list" where
  "handed L avctx a' = flushed L (frame_calls avctx a') (vorbis (priv_data avctx))"

definition queue_size :: "env \<Rightarrow> (ogg_packet \<times> byte list) list \<Rightarrow> int" where
  "queue_size E q = (\<Sum>hm\<leftarrow>q. staged_size E hm)"

subsection \<open>An instance of the parameters\<close>

text \<open>Little-endian bytes of a number, and back.\<close>

fun le_bytes :: "nat \<Rightarrow> nat \<Rightarrow> byte list" where
  "le_bytes 0 v = []"
| "le_bytes (Suc n) v = of_nat (v mod 256) # le_bytes n (v div 256)"

fun le_value :: "byte list \<Rightarrow> nat" where
  "le_value [] = 0"
| "le_value (b # bs) = unat b + 256 * le_value bs"

definition put64 :: "64 word \<Rightarrow> byte list" where
  "put64 w = le_bytes 8 (unat w)"

definition get64 :: "byte list \<Rightarrow> 64 word" where
  "get64 bs = of_nat (le_value bs)"

text \<open>The six fields of \<open>ogg_packet\<close> in the order of their declaration, eight bytes
  each.\<close>

definition lp64_put :: "ogg_packet \<Rightarrow> byte list" where
  "lp64_put h = put64 (packet h) @ put64 (bytes h) @ put64 (b_o_s h) @ put64 (e_o_s h)
                @ put64 (granulepos h) @ put64 (packetno h)"

definition lp64_get :: "byte list \<Rightarrow> ogg_packet" where
  "lp64_get bs =
     \<lparr>packet = get64 (take 8 bs), bytes = get64 (take 8 (drop 8 bs)),
      b_o_s = get64 (take 8 (drop 16 bs)), e_o_s = get64 (take 8 (drop 24 bs)),
      granulepos = get64 (take 8 (drop 32 bs)), packetno = get64 (take 8 (drop 40 bs))\<rparr>"

definition E0 :: env where
  "E0 = \<lparr>OV_EFAULT = - 129, OV_EINVAL = - 131, OV_EIMPL = - 130,
         AVERROR_BUG = - 558323010, AVERROR_EINVAL = - 22, AVERROR_ENOMEM = - 12,
         AVERROR_UNKNOWN = - 1313558101,
         CODEC_FLAG_QSCALE = 2, FF_QP2LAMBDA = 118, FF_INPUT_BUFFER_PADDING_SIZE = 8,
         LIBAVCODEC_IDENT = ''Lavc'',
         ff_vorbis_encoding_channel_layout_offsets =
           (\<lambda>n c. if n = 2 then [0, 2, 1] ! c else c),
         ff_samples_to_time_base = (\<lambda>a g. sint g),
         buffer_address = 4096,
         sizeof_ogg_packet = 48, put_ogg_packet = lp64_put, get_ogg_packet = lp64_get\<rparr>"

text \<open>A context as the framework hands it over (zeroed private data), and one with a
  frame allocated, as after a successful init.\<close>

definition S0 :: OggVorbisContext where
  "S0 = \<lparr>vorbis = [], buffer = replicate 65536 0, buffer_index = 0, eof = 0,
         dsp_initialized = 0, iblock = 0\<rparr>"

definition A0 :: AVCodecContext where
  "A0 = \<lparr>flags = 0, bit_rate = 0, global_quality = 0, channels = 2, sample_rate = 44100,
         rc_min_rate = 0, rc_max_rate = 0, cutoff = 0, extradata = None,
         extradata_size = 0, frame_size = 0, coded_frame = None, priv_data = S0\<rparr>"

definition A1 :: AVCodecContext where
  "A1 = A0\<lparr>frame_size := 64, coded_frame := Some \<lparr>pts = 0\<rparr>,
           priv_data := S0\<lparr>dsp_initialized := 1\<rparr>\<rparr>"

text \<open>An encoder that answers 1 to the first five calls and 0 afterwards, and whose
  packets have three bytes; and headers of 2, 1 and 4 bytes.\<close>

definition P1 :: "ogg_packet \<times> byte list" where
  "P1 = (\<lparr>packet = 8192, bytes = 3, b_o_s = 0, e_o_s = 0, granulepos = 64, packetno = 3\<rparr>,
         [10, 20, 30])"

definition H1 :: "(ogg_packet \<times> byte list) \<times> (ogg_packet \<times> byte list) \<times> (ogg_packet \<times> byte list)"
  where
  "H1 = ((\<lparr>packet = 8192, bytes = 2, b_o_s = 1, e_o_s = 0, granulepos = 0, packetno = 0\<rparr>,
          [1, 118]),
         (\<lparr>packet = 8200, bytes = 1, b_o_s = 0, e_o_s = 0, granulepos = 0, packetno = 1\<rparr>,
          [3]),
         (\<lparr>packet = 8208, bytes = 4, b_o_s = 0, e_o_s = 0, granulepos = 0, packetno = 2\<rparr>,
          [5, 6, 7, 8]))"

definition L1 :: libvorbis where
  "L1 = \<lparr>lib_ret = (\<lambda>h. if length h \<le> 5 then 1 else 0), lib_packet = (\<lambda>h. P1),
         lib_headers = (\<lambda>h. H1), lib_channels = (\<lambda>h. 2)\<rparr>"

text \<open>An encoder that answers 1 to the first five calls, fails at the sixth and has
  nothing to give afterwards. The context \<open>AY\<close> is what a first call at the end of the
  stream leaves of \<open>A1\<close> with this encoder: the packet \<open>P1\<close> is staged as libvorbis
  handed it over. \<open>AY'\<close> is that context after a further call with an output buffer of
  two bytes.\<close>

definition L2 :: libvorbis where
  "L2 = \<lparr>lib_ret = (\<lambda>h. if length h \<le> 5 then 1 else if length h = 6 then - 1 else 0),
         lib_packet = (\<lambda>h. P1), lib_headers = (\<lambda>h. H1), lib_channels = (\<lambda>h. 2)\<rparr>"

definition AY :: AVCodecContext where
  "AY = A1\<lparr>priv_data :=
            \<lparr>vorbis = [Vorbis_bitrate_flushpacket, Vorbis_bitrate_flushpacket,
                        Vorbis_bitrate_addblock, Vorbis_analysis, Vorbis_analysis_blockout,
                        Vorbis_analysis_wrote [] 0],
             buffer = lp64_put (fst P1) @ [10, 20, 30] @ replicate 65485 0,
             buffer_index = 51, eof = 1, dsp_initialized = 1, iblock = 0\<rparr>\<rparr>"

definition AY' :: AVCodecContext where
  "AY' = A1\<lparr>coded_frame := Some \<lparr>pts = 64\<rparr>,
            priv_data :=
              \<lparr>vorbis = [Vorbis_analysis_blockout, Vorbis_bitrate_flushpacket,
                         Vorbis_bitrate_flushpacket, Vorbis_bitrate_addblock, Vorbis_analysis,
                         Vorbis_analysis_blockout, Vorbis_analysis_wrote [] 0],
               buffer = lp64_put ((fst P1)\<lparr>packet := 4144\<rparr>) @ [10, 20, 30]
                        @ replicate 65485 0,
               buffer_index = 51, eof = 1, dsp_initialized = 1, iblock = 0\<rparr>\<rparr>"

text \<open>An encoder whose every call fails, and what two calls at the end of the stream
  leave of \<open>A1\<close> with it.\<close>

definition L3 :: libvorbis where
  "L3 = \<lparr>lib_ret = (\<lambda>h. - 1), lib_packet = (\<lambda>h. P1), lib_headers = (\<lambda>h. H1),
         lib_channels = (\<lambda>h. 2)\<rparr>"

definition AZ :: AVCodecContext where
  "AZ = A1\<lparr>priv_data := S0\<lparr>dsp_initialized := 1, vorbis := [Vorbis_analysis_wrote [] 0]\<rparr>\<rparr>"

definition AZ' :: AVCodecContext where
  "AZ' = A1\<lparr>priv_data :=
             S0\<lparr>dsp_initialized := 1,
                vorbis := [Vorbis_analysis_wrote [] 0, Vorbis_analysis_wrote [] 0]\<rparr>\<rparr>"

text \<open>A context whose staging buffer holds one packet of 65480 bytes, so that no
  further packet fits, and what a call at the end of the stream leaves of it with the
  encoder \<open>L1\<close>.\<close>

definition PF :: "ogg_packet \<times> byte list" where
  "PF = ((fst P1)\<lparr>bytes := 65480\<rparr>, replicate 65480 0)"

definition AF :: AVCodecContext where
  "AF = A1\<lparr>priv_data :=
            \<lparr>vorbis = [], buffer = lp64_put (fst PF) @ replicate 65488 0,
             buffer_index = 65528, eof = 0, dsp_initialized = 1, iblock = 0\<rparr>\<rparr>"

definition AF' :: AVCodecContext where
  "AF' = A1\<lparr>priv_data :=
            \<lparr>vorbis = [Vorbis_bitrate_flushpacket, Vorbis_bitrate_addblock, Vorbis_analysis,
                        Vorbis_analysis_blockout, Vorbis_analysis_wrote [] 0],
             buffer = lp64_put (fst PF) @ replicate 65488 0,
             buffer_index = 65528, eof = 1, dsp_initialized = 1, iblock = 0\<rparr>\<rparr>"

text \<open>An encoder whose every call succeeds with 0, and a heap that has memory (zeroed)
  and a frame.\<close>

definition L0 :: libvorbis where
  "L0 = \<lparr>lib_ret = (\<lambda>h. 0), lib_packet = (\<lambda>h. P1), lib_headers = (\<lambda>h. H1),
         lib_channels = (\<lambda>h. 2)\<rparr>"

definition H0 :: heap where
  "H0 = \<lparr>av_malloc = (\<lambda>n. Some (\<lambda>i. 0)), avcodec_alloc_frame = Some \<lparr>pts = 0\<rparr>\<rparr>"

text \<open>What the encoders above still have to give after the history \<open>h\<close>.\<close>

definition pending0 :: "lib_call list \<Rightarrow> nat" where
  "pending0 h = 6 - length h"

section \<open>Properties\<close>

subsection \<open>Reasoning about the two loops\<close>

text \<open>
  A loop that ends does so from a state its invariant \<open>I\<close> holds in, by one of its
  exits; \<open>Q\<close> is what every exit guarantees.
\<close>

lemma flush_packets_rule:
  assumes run: "flush_packets E L s = Some out"
    and init: "I s"
    and step: "\<And>s s2. I s \<Longrightarrow> ret L (call Vorbis_bitrate_flushpacket s) = 1 \<Longrightarrow>
        stage_packet E (call Vorbis_bitrate_flushpacket s)
          (lib_packet L (vorbis (call Vorbis_bitrate_flushpacket s))) = Staged s2 \<Longrightarrow> I s2"
    and fault: "\<And>s. I s \<Longrightarrow> ret L (call Vorbis_bitrate_flushpacket s) = 1 \<Longrightarrow>
        stage_packet E (call Vorbis_bitrate_flushpacket s)
          (lib_packet L (vorbis (call Vorbis_bitrate_flushpacket s))) = Stage_fault \<Longrightarrow> Q Loop_fault"
    and overflow: "\<And>s. I s \<Longrightarrow> ret L (call Vorbis_bitrate_flushpacket s) = 1 \<Longrightarrow>
        stage_packet E (call Vorbis_bitrate_flushpacket s)
          (lib_packet L (vorbis (call Vorbis_bitrate_flushpacket s))) = Stage_overflow \<Longrightarrow>
        Q (Loop_return (- 1) (call Vorbis_bitrate_flushpacket s))"
    and fin: "\<And>s. I s \<Longrightarrow> ret L (call Vorbis_bitrate_flushpacket s) \<noteq> 1 \<Longrightarrow>
        Q (Loop_done (ret L (call Vorbis_bitrate_flushpacket s)) (call Vorbis_bitrate_flushpacket s))"
  shows "Q out"
proof -
  have "E' = E \<and> L' = L \<and> I s' \<longrightarrow> Q out'"
    if "flush_packets E' L' s' = Some out'" for E' L' s' out'
    using that
  proof (induction E' L' s' out' rule: flush_packets.raw_induct [rotated 1, consumes 1])
    case (1 fp E' L' s' out')
    show ?case
    proof (intro impI, elim conjE)
      assume eq: "E' = E" "L' = L" and inv: "I s'"
      let ?s1 = "call Vorbis_bitrate_flushpacket s'"
      show "Q out'"
      proof (cases "ret L ?s1 = 1")
        case False
        with 1(2) eq have "out' = Loop_done (ret L ?s1) ?s1"
          by (simp add: Let_def)
        with fin [OF inv False] show ?thesis by simp
      next
        case True
        show ?thesis
        proof (cases "stage_packet E ?s1 (lib_packet L (vorbis ?s1))")
          case Stage_fault
          with 1(2) eq True have "out' = Loop_fault" by (simp add: Let_def)
          with fault [OF inv True Stage_fault] show ?thesis by simp
        next
          case Stage_overflow
          with 1(2) eq True have "out' = Loop_return (- 1) ?s1" by (simp add: Let_def)
          with overflow [OF inv True Stage_overflow] show ?thesis by simp
        next
          case (Staged s2)
          with 1(2) eq True have "fp E L s2 = Some out'" by (simp add: Let_def)
          from 1(1) [OF this] step [OF inv True Staged] show ?thesis by simp
        qed
      qed
    qed
  qed
  from this [OF run] init show ?thesis by simp
qed

lemma retrieve_packets_rule:
  assumes run: "retrieve_packets E L s = Some out"
    and init: "I s"
    and step: "\<And>s r s4. I s \<Longrightarrow> ret L (call Vorbis_analysis_blockout s) = 1 \<Longrightarrow>
        0 \<le> ret L (call Vorbis_analysis (call Vorbis_analysis_blockout s)) \<Longrightarrow>
        0 \<le> ret L (call Vorbis_bitrate_addblock (call Vorbis_analysis (call Vorbis_analysis_blockout s))) \<Longrightarrow>
        flush_packets E L (call Vorbis_bitrate_addblock (call Vorbis_analysis (call Vorbis_analysis_blockout s)))
          = Some (Loop_done r s4) \<Longrightarrow> 0 \<le> r \<Longrightarrow> I s4"
    and stop: "\<And>s. I s \<Longrightarrow> ret L (call Vorbis_analysis_blockout s) \<noteq> 1 \<Longrightarrow>
        Q (Loop_done (ret L (call Vorbis_analysis_blockout s)) (call Vorbis_analysis_blockout s))"
    and analysis: "\<And>s. I s \<Longrightarrow> ret L (call Vorbis_analysis_blockout s) = 1 \<Longrightarrow>
        ret L (call Vorbis_analysis (call Vorbis_analysis_blockout s)) < 0 \<Longrightarrow>
        Q (Loop_done (ret L (call Vorbis_analysis (call Vorbis_analysis_blockout s)))
             (call Vorbis_analysis (call Vorbis_analysis_blockout s)))"
    and addblock: "\<And>s. I s \<Longrightarrow> ret L (call Vorbis_analysis_blockout s) = 1 \<Longrightarrow>
        0 \<le> ret L (call Vorbis_analysis (call Vorbis_analysis_blockout s)) \<Longrightarrow>
        ret L (call Vorbis_bitrate_addblock (call Vorbis_analysis (call Vorbis_analysis_blockout s))) < 0 \<Longrightarrow>
        Q (Loop_done (ret L (call Vorbis_bitrate_addblock (call Vorbis_analysis (call Vorbis_analysis_blockout s))))
             (call Vorbis_bitrate_addblock (call Vorbis_analysis (call Vorbis_analysis_blockout s))))"
    and flush: "\<And>s x. I s \<Longrightarrow> ret L (call Vorbis_analysis_blockout s) = 1 \<Longrightarrow>
        0 \<le> ret L (call Vorbis_analysis (call Vorbis_analysis_blockout s)) \<Longrightarrow>
        0 \<le> ret L (call Vorbis_bitrate_addblock (call Vorbis_analysis (call Vorbis_analysis_blockout s))) \<Longrightarrow>
        flush_packets E L (call Vorbis_bitrate_addblock (call Vorbis_analysis (call Vorbis_analysis_blockout s)))
          = Some x \<Longrightarrow> (\<forall>r s4. x = Loop_done r s4 \<longrightarrow> r < 0) \<Longrightarrow> Q x"
  shows "Q out"
proof -
  have "E' = E \<and> L' = L \<and> I s' \<longrightarrow> Q out'"
    if "retrieve_packets E' L' s' = Some out'" for E' L' s' out'
    using that
  proof (induction E' L' s' out' rule: retrieve_packets.raw_induct [rotated 1, consumes 1])
    case (1 rp E' L' s' out')
    show ?case
    proof (intro impI, elim conjE)
      assume eq: "E' = E" "L' = L" and inv: "I s'"
      let ?s1 = "call Vorbis_analysis_blockout s'"
      let ?s2 = "call Vorbis_analysis ?s1"
      let ?s3 = "call Vorbis_bitrate_addblock ?s2"
      note body = 1(2) [unfolded eq Let_def]
      show "Q out'"
      proof (cases "ret L ?s1 = 1")
        case False
        with body have "out' = Loop_done (ret L ?s1) ?s1" by simp
        with stop [OF inv False] show ?thesis by simp
      next
        case b: True
        show ?thesis
        proof (cases "ret L ?s2 < 0")
          case True
          with body b have "out' = Loop_done (ret L ?s2) ?s2" by simp
          with analysis [OF inv b True] show ?thesis by simp
        next
          case False
          then have a: "0 \<le> ret L ?s2" by simp
          show ?thesis
          proof (cases "ret L ?s3 < 0")
            case True
            with body b a have "out' = Loop_done (ret L ?s3) ?s3" by simp
            with addblock [OF inv b a True] show ?thesis by simp
          next
            case False
            then have c: "0 \<le> ret L ?s3" by simp
            from body b a c obtain x where x: "flush_packets E L ?s3 = Some x"
              by (cases "flush_packets E L ?s3") simp_all
            show ?thesis
            proof (cases "\<exists>r s4. x = Loop_done r s4 \<and> 0 \<le> r")
              case True
              then obtain r s4 where r: "x = Loop_done r s4" "0 \<le> r" by blast
              with body b a c x have "rp E L s4 = Some out'" by simp
              from 1(1) [OF this] step [OF inv b a c x [unfolded r(1)] r(2)]
              show ?thesis by simp
            next
              case False
              then have neg: "\<forall>r s4. x = Loop_done r s4 \<longrightarrow> r < 0" by auto
              with body b a c x have "out' = x"
                by (cases x) auto
              with flush [OF inv b a c x neg] show ?thesis by simp
            qed
          qed
        qed
      qed
    qed
  qed
  from this [OF run] init show ?thesis by simp
qed

subsection \<open>Integers and the instance of the layout\<close>

lemma to_int_id: "- (2 ^ 31) \<le> x \<Longrightarrow> x < 2 ^ 31 \<Longrightarrow> to_int x = x"
  by (simp add: to_int_def)

lemma to_uint_id: "0 \<le> x \<Longrightarrow> x < 2 ^ 32 \<Longrightarrow> to_uint x = x"
  by (simp add: to_uint_def)

lemma to_size_t_id: "0 \<le> x \<Longrightarrow> x < 2 ^ 64 \<Longrightarrow> to_size_t x = x"
  by (simp add: to_size_t_def)

lemma sint64_less: "sint (w :: 64 word) < 2 ^ 63"
  using sint_lt [of w] by simp

lemma uint_sint_nonneg: "0 \<le> sint (w :: 64 word) \<Longrightarrow> uint w = sint w"
proof -
  assume "0 \<le> sint w"
  moreover have "sint w < 2 ^ 64"
    using sint64_less [of w] by simp
  ultimately have "take_bit 64 (sint w) = sint w"
    by (simp add: take_bit_int_eq_self)
  then show ?thesis
    by (simp add: uint_sint)
qed

lemma le_value_le_bytes: "v < 256 ^ n \<Longrightarrow> le_value (le_bytes n v) = v"
proof (induction n arbitrary: v)
  case 0
  then show ?case by simp
next
  case (Suc n)
  then have "v div 256 < 256 ^ n"
    by (simp add: less_mult_imp_div_less mult.commute)
  with Suc.IH have "le_value (le_bytes n (v div 256)) = v div 256" by blast
  then show ?case by (simp add: unat_of_nat)
qed

lemma length_le_bytes: "length (le_bytes n v) = n"
  by (induction n arbitrary: v) auto

lemma get64_put64: "get64 (put64 w) = w"
proof -
  have "unat w < 256 ^ 8"
    using unsigned_less [of w, where ?'a = nat] by simp
  then show ?thesis
    by (simp add: get64_def put64_def le_value_le_bytes)
qed

lemma length_put64: "length (put64 w) = 8"
  by (simp add: put64_def length_le_bytes)

lemma lp64_get_put: "lp64_get (lp64_put h) = h"
  by (simp add: lp64_get_def lp64_put_def length_put64 get64_put64)

lemma length_lp64_put: "length (lp64_put h) = 48"
  by (simp add: lp64_put_def length_put64)

lemma layout_ok_E0: "layout_ok E0"
  by (simp add: layout_ok_def E0_def lp64_get_put length_lp64_put BUFFER_SIZE_def)

subsection \<open>The staging buffer\<close>

lemma staged_length: "staged E s ps \<Longrightarrow> length (buffer s) = 65536"
  by (simp add: staged_def BUFFER_SIZE_def)

lemma staged_index:
  "staged E s ps \<Longrightarrow> 0 \<le> buffer_index s \<and> buffer_index s \<le> 65536"
  by (simp add: staged_def BUFFER_SIZE_def)

lemma length_wire:
  "layout_ok E \<Longrightarrow> int (length (wire E hm)) = staged_size E hm"
  by (simp add: wire_def staged_size_def layout_ok_def)

lemma staged_index_sum:
  assumes "layout_ok E" "staged E s ps"
  shows "buffer_index s = (\<Sum>hm\<leftarrow>ps. staged_size E hm)"
proof -
  from assms(2) have "length (take (nat (buffer_index s)) (buffer s)) = length (concat (map (wire E) ps))"
    by (simp add: staged_def)
  moreover have "int (length (concat (map (wire E) ps))) = (\<Sum>hm\<leftarrow>ps. staged_size E hm)"
    using length_wire [OF assms(1)]
    by (induction ps) (simp_all)
  moreover have "length (take (nat (buffer_index s)) (buffer s)) = nat (buffer_index s)"
    using staged_length [OF assms(2)] staged_index [OF assms(2)] by (auto simp: min_def)
  ultimately show ?thesis
    using staged_index [OF assms(2)] by simp
qed

lemma payload_ok:
  "packet_ok opm \<Longrightarrow> sint (bytes (fst opm)) = int (length (payload opm))"
  by (auto simp: packet_ok_def payload_def min_def)

text \<open>What the body of the inner loop does to a buffer that holds a queue.\<close>

lemma stage_packet_staged:
  assumes lay: "layout_ok E" and st: "staged E s ps" and ok: "packet_ok opm"
  shows "stage_packet E s opm =
     (if buffer_index s + staged_size E (fst opm, payload opm) > BUFFER_SIZE then Stage_overflow
      else Staged (s\<lparr>buffer := take (nat (buffer_index s)) (buffer s)
                                 @ wire E (fst opm, payload opm)
                                 @ drop (nat (buffer_index s + staged_size E (fst opm, payload opm)))
                                     (buffer s),
                      buffer_index := buffer_index s + staged_size E (fst opm, payload opm)\<rparr>))"
proof -
  obtain op mem where opm: "opm = (op, mem)" by (cases opm)
  define n where "n = sint (bytes op)"
  define sz where "sz = int (sizeof_ogg_packet E)"
  define i where "i = buffer_index s"
  from ok have n: "0 \<le> n" "n \<le> int (length mem)" "uint (bytes op) = n"
    by (simp_all add: packet_ok_def opm n_def uint_sint_nonneg)
  have n63: "n < 2 ^ 63" unfolding n_def by (rule sint64_less)
  from lay have sz: "0 \<le> sz" "sz \<le> 65536" "\<And>h. length (put_ogg_packet E h) = nat sz"
    by (simp_all add: layout_ok_def sz_def BUFFER_SIZE_def)
  from st have i: "0 \<le> i" "i \<le> 65536" and len: "int (length (buffer s)) = 65536"
    by (simp_all add: staged_def i_def BUFFER_SIZE_def)
  have sum: "to_size_t (i + sz + n) = i + sz + n"
    using n n63 sz i by (intro to_size_t_id) simp_all
  have size: "staged_size E (op, payload opm) = sz + n"
    using n by (simp add: staged_size_def payload_def opm sz_def n_def)
  show ?thesis
  proof (cases "i + sz + n > 65536")
    case True
    then show ?thesis
      using sum size
      by (simp add: stage_packet_def opm BUFFER_SIZE_def i_def [symmetric] sz_def [symmetric]
          n_def [symmetric])
  next
    case False
    have i1: "to_int (to_size_t (i + sz)) = i + sz"
      using False n sz i by (simp add: to_size_t_id to_int_id)
    have i2: "to_int (i + sz + n) = i + sz + n"
      using False n sz i by (simp add: to_int_id)
    have s1: "store (buffer s) i (put_ogg_packet E op)
       = Some (take (nat i) (buffer s) @ put_ogg_packet E op @ drop (nat (i + sz)) (buffer s))"
      using False n sz(1,2) sz(3) [of op] i len
      by (simp add: store_def nat_add_distrib)
    have ld: "load mem 0 n = Some (payload opm)"
      using n by (simp add: load_def payload_def opm n_def)
    have lp: "length (payload opm) = nat n"
      using n by (auto simp: payload_def opm n_def min_def)
    have s2: "store (take (nat i) (buffer s) @ put_ogg_packet E op @ drop (nat (i + sz)) (buffer s))
         (i + sz) (payload opm)
       = Some (take (nat i) (buffer s) @ put_ogg_packet E op @ payload opm
               @ drop (nat (i + sz + n)) (buffer s))"
      using False n sz(1,2) sz(3) [of op] i len lp
      by (simp add: store_def nat_add_distrib min_def ac_simps)
    show ?thesis
      using False sum size i1 i2 s1 ld s2 n(3)
      by (simp add: stage_packet_def opm BUFFER_SIZE_def i_def [symmetric] sz_def [symmetric]
          n_def [symmetric] wire_def add.assoc)
  qed
qed

lemma staged_enqueue:
  assumes lay: "layout_ok E" and st: "staged E s ps" and ok: "packet_ok opm"
    and fit: "buffer_index s + staged_size E (fst opm, payload opm) \<le> BUFFER_SIZE"
  shows "staged E
     (s\<lparr>buffer := take (nat (buffer_index s)) (buffer s)
                      @ wire E (fst opm, payload opm)
                      @ drop (nat (buffer_index s + staged_size E (fst opm, payload opm)))
                          (buffer s),
         buffer_index := buffer_index s + staged_size E (fst opm, payload opm)\<rparr>)
     (ps @ [(fst opm, payload opm)])"
proof -
  define i where "i = buffer_index s"
  define w where "w = wire E (fst opm, payload opm)"
  define k where "k = staged_size E (fst opm, payload opm)"
  have lw: "length w = nat k" "0 \<le> k"
    using length_wire [OF lay, of "(fst opm, payload opm)"]
    by (simp_all add: w_def k_def staged_size_def)
  from st have i: "0 \<le> i" "i \<le> 65536" and len: "length (buffer s) = 65536"
    and tk: "take (nat i) (buffer s) = concat (map (wire E) ps)"
    and all: "list_all (\<lambda>hm. sint (bytes (fst hm)) = int (length (snd hm))) ps"
    by (simp_all add: staged_def i_def BUFFER_SIZE_def)
  from fit have fit': "i + k \<le> 65536"
    by (simp add: i_def k_def BUFFER_SIZE_def)
  have lt: "length (take (nat i) (buffer s)) = nat i"
    using i len by (auto simp: min_def)
  have "take (nat (i + k)) (take (nat i) (buffer s) @ w @ drop (nat (i + k)) (buffer s))
      = take (nat i) (buffer s) @ w"
    using lt lw i by (simp add: nat_add_distrib)
  moreover have "length (take (nat i) (buffer s) @ w @ drop (nat (i + k)) (buffer s)) = 65536"
    using lt lw i len fit' by (simp add: nat_add_distrib)
  ultimately show ?thesis
    using i lw fit' tk all payload_ok [OF ok]
    by (simp add: staged_def BUFFER_SIZE_def i_def [symmetric] w_def [symmetric]
        k_def [symmetric])
qed

text \<open>The buffer of a non-empty queue, cut at the end of its oldest packet.\<close>

lemma staged_Cons:
  assumes lay: "layout_ok E" and st: "staged E s (hm # ps)"
  shows "buffer s = put_ogg_packet E (fst hm) @ snd hm @ concat (map (wire E) ps)
                    @ drop (nat (buffer_index s)) (buffer s)"
    and "buffer_index s = staged_size E hm + int (length (concat (map (wire E) ps)))"
    and "sint (bytes (fst hm)) = int (length (snd hm))"
    and "length (put_ogg_packet E (fst hm)) = sizeof_ogg_packet E"
proof -
  from st have tk: "take (nat (buffer_index s)) (buffer s)
      = put_ogg_packet E (fst hm) @ snd hm @ concat (map (wire E) ps)"
    by (simp add: staged_def wire_def)
  have "buffer s = take (nat (buffer_index s)) (buffer s) @ drop (nat (buffer_index s)) (buffer s)"
    by simp
  with tk show "buffer s = put_ogg_packet E (fst hm) @ snd hm @ concat (map (wire E) ps)
                    @ drop (nat (buffer_index s)) (buffer s)"
    by simp
  show "length (put_ogg_packet E (fst hm)) = sizeof_ogg_packet E"
    using lay by (simp add: layout_ok_def)
  from st show "sint (bytes (fst hm)) = int (length (snd hm))"
    by (simp add: staged_def)
  have "length (take (nat (buffer_index s)) (buffer s)) = nat (buffer_index s)"
    using staged_length [OF st] staged_index [OF st] by (auto simp: min_def)
  with tk have "nat (buffer_index s)
      = length (put_ogg_packet E (fst hm) @ snd hm @ concat (map (wire E) ps))"
    by simp
  moreover have "length (put_ogg_packet E (fst hm)) = sizeof_ogg_packet E"
    using lay by (simp add: layout_ok_def)
  ultimately have "int (nat (buffer_index s))
      = int (sizeof_ogg_packet E) + int (length (snd hm)) + int (length (concat (map (wire E) ps)))"
    by simp
  then show "buffer_index s = staged_size E hm + int (length (concat (map (wire E) ps)))"
    using staged_index [OF st] by (simp add: staged_size_def)
qed

lemma sizeof_ogg_packet_pos:
  assumes "layout_ok E"
  shows "0 < sizeof_ogg_packet E"
proof (rule ccontr)
  assume "\<not> 0 < sizeof_ogg_packet E"
  with assms have nil: "\<And>h. put_ogg_packet E h = []"
    by (simp add: layout_ok_def)
  define h0 :: ogg_packet where
    "h0 = \<lparr>packet = 0, bytes = 0, b_o_s = 0, e_o_s = 0, granulepos = 0, packetno = 0\<rparr>"
  from assms have "get_ogg_packet E (put_ogg_packet E h0) = h0"
    "get_ogg_packet E (put_ogg_packet E (h0\<lparr>bytes := 1\<rparr>)) = h0\<lparr>bytes := 1\<rparr>"
    by (simp_all add: layout_ok_def)
  then have "h0 = h0\<lparr>bytes := 1\<rparr>"
    by (simp add: nil)
  then have "bytes h0 = bytes (h0\<lparr>bytes := 1\<rparr>)" by simp
  then show False by (simp add: h0_def)
qed

lemma output_packet_staged:
  assumes lay: "layout_ok E" and st: "staged E (priv_data a) (hm # ps)"
    and fr: "coded_frame a = Some fr"
  defines "s \<equiv> priv_data a"
  defines "b1 \<equiv> put_ogg_packet E (fst (repointed E hm)) @ drop (sizeof_ogg_packet E) (buffer s)"
  defines "a1 \<equiv> a\<lparr>coded_frame :=
                      Some (fr\<lparr>pts := ff_samples_to_time_base E a (granulepos (fst hm))\<rparr>),
                    priv_data := s\<lparr>buffer := b1\<rparr>\<rparr>"
  defines "i1 \<equiv> buffer_index s - staged_size E hm"
  shows "output_packet E a buf_size =
     (if int (length (snd hm)) > buf_size then Return (- 1) (a1, [])
      else Return (int (length (snd hm)))
             (a1\<lparr>priv_data :=
                   s\<lparr>buffer := concat (map (wire E) ps) @ drop (nat i1) b1,
                     buffer_index := i1\<rparr>\<rparr>,
              snd hm))"
proof -
  obtain h m where hm: "hm = (h, m)" by (cases hm)
  define sz where "sz = sizeof_ogg_packet E"
  define W where "W = concat (map (wire E) ps)"
  define R where "R = drop (nat (buffer_index s)) (buffer s)"
  define h' where "h' = h\<lparr>packet := buffer_address E + of_int (int sz)\<rparr>"
  note c = staged_Cons [OF lay st, folded s_def, unfolded hm fst_conv snd_conv,
      folded sz_def W_def R_def]
  have buf: "buffer s = put_ogg_packet E h @ m @ W @ R" by (rule c(1))
  have idx: "buffer_index s = int sz + int (length m) + int (length W)"
    using c(2) by (simp add: staged_size_def sz_def)
  have lenh: "length (put_ogg_packet E h) = sz" "length (put_ogg_packet E h') = sz"
    using lay by (simp_all add: layout_ok_def sz_def)
  have bytes: "sint (bytes h) = int (length m)" by (rule c(3))
  have get: "get_ogg_packet E (put_ogg_packet E h) = h"
    using lay by (simp add: layout_ok_def)
  from st have len: "length (buffer s) = 65536" and ile: "buffer_index s \<le> 65536"
    by (simp_all add: staged_def s_def BUFFER_SIZE_def)
  have tot: "sz + length m + length W + length R = 65536"
    using len lenh(1) unfolding buf by simp
  have nz: "buffer_index s \<noteq> 0"
    using idx sizeof_ogg_packet_pos [OF lay] by (simp add: sz_def)
  have b1: "b1 = put_ogg_packet E h' @ m @ W @ R"
    using lenh(1) by (simp add: b1_def repointed_def hm h'_def sz_def [symmetric] buf)
  have l1: "load (buffer s) 0 (int sz) = Some (put_ogg_packet E h)"
    using lenh(1) tot by (simp add: load_def buf)
  have s1: "store (buffer s) 0 (put_ogg_packet E h') = Some b1"
    using lenh tot by (simp add: store_def buf b1)
  have pk: "to_int (sint (bytes h')) = int (length m)"
    using bytes tot by (simp add: h'_def to_int_id)
  have pks: "to_size_t (int (length m)) = int (length m)"
    using tot by (simp add: to_size_t_id)
  have l2: "load b1 (int sz) (int (length m)) = Some m"
    using lenh(2) tot by (simp add: load_def b1)
  have i1: "i1 = int (length W)"
    by (simp add: i1_def idx staged_size_def hm sz_def)
  have ti: "to_int (to_size_t (buffer_index s) - to_size_t (int (length m) + int sz)) = i1"
    using tot by (simp add: to_size_t_id to_int_id idx i1)
  have tsi: "to_size_t i1 = i1"
    using tot by (simp add: to_size_t_id i1)
  have l3: "load b1 (int (length m) + int sz) i1 = Some W"
    using lenh(2) tot by (simp add: load_def b1 i1)
  have s2: "store b1 0 W = Some (W @ drop (nat i1) b1)"
    using lenh(2) tot by (simp add: store_def b1 i1)
  show ?thesis
    using nz l1 s1 pk pks l2 ti tsi l3 s2 fr get
    by (simp add: output_packet_def Let_def s_def [symmetric] sz_def [symmetric]
        h'_def a1_def hm W_def [symmetric])
qed

lemma staged_repointed:
  assumes lay: "layout_ok E" and st: "staged E s (hm # ps)"
  shows "staged E
     (s\<lparr>buffer := put_ogg_packet E (fst (repointed E hm))
                      @ drop (sizeof_ogg_packet E) (buffer s)\<rparr>)
     (repointed E hm # ps)"
proof -
  note c = staged_Cons [OF lay st]
  have l: "length (put_ogg_packet E (fst (repointed E hm))) = sizeof_ogg_packet E"
    "length (put_ogg_packet E (fst hm)) = sizeof_ogg_packet E"
    using lay by (simp_all add: layout_ok_def)
  have d: "drop (sizeof_ogg_packet E) (buffer s)
      = snd hm @ concat (map (wire E) ps) @ drop (nat (buffer_index s)) (buffer s)"
    by (subst c(1)) (simp add: l)
  have n: "nat (buffer_index s)
      = sizeof_ogg_packet E + length (snd hm) + length (concat (map (wire E) ps))"
    using c(2) by (simp add: staged_size_def)
  have len: "length (buffer s) = 65536" by (rule staged_length [OF st])
  have "length (drop (sizeof_ogg_packet E) (buffer s)) = 65536 - sizeof_ogg_packet E"
    using len by simp
  moreover have "sizeof_ogg_packet E \<le> 65536"
    using lay by (simp add: layout_ok_def BUFFER_SIZE_def)
  ultimately have len': "length (put_ogg_packet E (fst (repointed E hm))
      @ drop (sizeof_ogg_packet E) (buffer s)) = 65536"
    using l(1) by simp
  have tk: "take (nat (buffer_index s)) (put_ogg_packet E (fst (repointed E hm))
      @ drop (sizeof_ogg_packet E) (buffer s))
      = put_ogg_packet E (fst (repointed E hm)) @ snd hm @ concat (map (wire E) ps)"
    unfolding d using l(1) n by simp
  from st have rest: "0 \<le> buffer_index s" "buffer_index s \<le> BUFFER_SIZE"
    "list_all (\<lambda>hm. sint (bytes (fst hm)) = int (length (snd hm))) (hm # ps)"
    by (simp_all add: staged_def)
  show ?thesis
    using len' tk rest
    by (simp add: staged_def BUFFER_SIZE_def wire_def repointed_def)
qed

lemma staged_dequeue:
  assumes lay: "layout_ok E" and st: "staged E s (hm # ps)"
    and b1: "length b1 = 65536"
  shows "staged E
     (s\<lparr>buffer := concat (map (wire E) ps) @ drop (nat (buffer_index s - staged_size E hm)) b1,
         buffer_index := buffer_index s - staged_size E hm\<rparr>)
     ps"
proof -
  note c = staged_Cons [OF lay st]
  define W where "W = concat (map (wire E) ps)"
  have i1: "buffer_index s - staged_size E hm = int (length W)"
    using c(2) by (simp add: W_def)
  have le: "length W \<le> 65536"
    using staged_index [OF st] c(2) by (simp add: W_def staged_size_def)
  from st have all: "list_all (\<lambda>hm. sint (bytes (fst hm)) = int (length (snd hm))) ps"
    by (simp add: staged_def)
  show ?thesis
    using le all b1
    by (simp add: staged_def BUFFER_SIZE_def i1 W_def [symmetric])
qed

lemma staged_empty_iff:
  assumes lay: "layout_ok E" and st: "staged E s ps"
  shows "buffer_index s = 0 \<longleftrightarrow> ps = []"
proof
  assume "buffer_index s = 0"
  with st have "concat (map (wire E) ps) = []"
    by (simp add: staged_def)
  moreover have "wire E hm \<noteq> []" for hm
    using length_wire [OF lay, of hm] sizeof_ogg_packet_pos [OF lay]
    by (auto simp: staged_size_def)
  ultimately show "ps = []"
    by (cases ps) simp_all
next
  assume "ps = []"
  with staged_index_sum [OF lay st] show "buffer_index s = 0" by simp
qed

lemma staged_S0: "staged E S0 []"
  by (simp add: staged_def S0_def BUFFER_SIZE_def)

subsection \<open>The retrieval loops\<close>

lemma staged_call [simp]: "staged E (call c s) ps = staged E s ps"
  by (simp add: staged_def call_def)

lemma staged_vorbis [simp]: "staged E (s\<lparr>vorbis := v\<rparr>) ps = staged E s ps"
  by (simp add: staged_def)

lemma retrieved_refl: "staged E s ps \<Longrightarrow> retrieved E L ps s [] s"
  by (simp add: retrieved_def)

lemma clean_Nil: "clean L [] h"
  by (simp add: clean_def)

text \<open>A call of the loops that hands no packet over keeps the queue.\<close>

lemma retrieved_call:
  assumes "retrieved E L ps s new sk" and "c \<in> loop_calls"
    and "c = Vorbis_bitrate_flushpacket \<Longrightarrow> ret L (call c sk) \<noteq> 1"
  shows "retrieved E L ps s (c # new) (call c sk)"
  using assms by (auto simp: retrieved_def call_def ret_def)

lemma clean_call:
  assumes "clean L new (vorbis s)" and "vorbis sk = new @ vorbis s" and "0 \<le> ret L (call c sk)"
  shows "clean L (c # new) (vorbis s)"
  using assms by (simp add: clean_def call_def ret_def)

text \<open>A packet handed over is checked and, if it fits, queued.\<close>

lemma retrieved_stage:
  assumes lay: "layout_ok E" and lib: "lib_ok L"
    and rt: "retrieved E L ps s new sk"
    and one: "ret L (call Vorbis_bitrate_flushpacket sk) = 1"
  defines "s1 \<equiv> call Vorbis_bitrate_flushpacket sk"
  defines "p \<equiv> lib_packet L (vorbis s1)"
  shows "stage_packet E s1 p \<noteq> Stage_fault"
    and "stage_packet E s1 p = Stage_overflow \<Longrightarrow>
           BUFFER_SIZE < buffer_index sk + staged_size E (fst p, payload p)"
    and "stage_packet E s1 p = Staged s2 \<Longrightarrow>
           retrieved E L ps s (Vorbis_bitrate_flushpacket # new) s2"
proof -
  have v: "vorbis s1 = Vorbis_bitrate_flushpacket # new @ vorbis s"
    using rt by (simp add: s1_def call_def retrieved_def)
  have ok: "packet_ok p"
    using lib one by (simp add: lib_ok_def p_def s1_def ret_def call_def)
  have st: "staged E s1 (ps @ flushed L new (vorbis s))"
    using rt by (simp add: s1_def retrieved_def)
  note sp = stage_packet_staged [OF lay st ok]
  have idx: "buffer_index s1 = buffer_index sk"
    by (simp add: s1_def call_def)
  show "stage_packet E s1 p \<noteq> Stage_fault"
    by (simp add: sp)
  show "BUFFER_SIZE < buffer_index sk + staged_size E (fst p, payload p)"
    if "stage_packet E s1 p = Stage_overflow"
    using that by (simp add: sp idx split: if_splits)
  show "retrieved E L ps s (Vorbis_bitrate_flushpacket # new) s2"
    if "stage_packet E s1 p = Staged s2"
  proof -
    from that have fit: "buffer_index s1 + staged_size E (fst p, payload p) \<le> BUFFER_SIZE"
      and s2: "s2 = s1\<lparr>buffer := take (nat (buffer_index s1)) (buffer s1)
                                 @ wire E (fst p, payload p)
                                 @ drop (nat (buffer_index s1 + staged_size E (fst p, payload p)))
                                     (buffer s1),
                      buffer_index := buffer_index s1 + staged_size E (fst p, payload p)\<rparr>"
      by (simp_all add: sp split: if_splits)
    have fl: "flushed L (Vorbis_bitrate_flushpacket # new) (vorbis s)
        = flushed L new (vorbis s) @ [(fst p, payload p)]"
      using one v by (simp add: p_def s1_def ret_def)
    have "staged E s2 ((ps @ flushed L new (vorbis s)) @ [(fst p, payload p)])"
      unfolding s2 by (rule staged_enqueue [OF lay st ok fit])
    then show ?thesis
      using rt v fl by (simp add: retrieved_def s2 s1_def call_def loop_calls_def)
  qed
qed

lemma exit_done:
  assumes "retrieved E L ps s new sk" and "clean L new (vorbis s)" and "c \<in> loop_calls"
    and "c = Vorbis_bitrate_flushpacket \<Longrightarrow> ret L (call c sk) \<noteq> 1"
  shows "retrieval_exit E L ps s (Loop_done (ret L (call c sk)) (call c sk))"
  using retrieved_call [OF assms(1,3,4)] assms(2)
  by (auto simp: retrieval_exit_def)

lemma exit_continue:
  assumes "retrieval_exit E L ps s (Loop_done r s')" and "0 \<le> r"
  shows "\<exists>new. retrieved E L ps s new s' \<and> clean L new (vorbis s)"
proof -
  from assms(1) obtain c new where r: "r = ret L s'"
    and rt: "retrieved E L ps s (c # new) s'" and cl: "clean L new (vorbis s)"
    by (auto simp: retrieval_exit_def)
  from rt have "vorbis s' = c # new @ vorbis s"
    by (simp add: retrieved_def)
  with cl assms(2) r have "clean L (c # new) (vorbis s)"
    by (simp add: clean_def ret_def)
  with rt show ?thesis by blast
qed

lemma retrieved_step:
  assumes "retrieved E L ps s new sk" and "clean L new (vorbis s)"
    and "c \<in> loop_calls" and "c \<noteq> Vorbis_bitrate_flushpacket" and "0 \<le> ret L (call c sk)"
  shows "retrieved E L ps s (c # new) (call c sk)" and "clean L (c # new) (vorbis s)"
proof -
  show "retrieved E L ps s (c # new) (call c sk)"
    using assms(1,3,4) by (intro retrieved_call) simp_all
  from assms(1) have "vorbis sk = new @ vorbis s"
    by (simp add: retrieved_def)
  from clean_call [OF assms(2) this assms(5)] show "clean L (c # new) (vorbis s)" .
qed

lemma flush_packets_exit:
  assumes lay: "layout_ok E" and lib: "lib_ok L"
    and run: "flush_packets E L sk = Some out"
    and rt: "retrieved E L ps s new sk" and cl: "clean L new (vorbis s)"
  shows "retrieval_exit E L ps s out"
proof (rule flush_packets_rule
    [OF run, where I = "\<lambda>sk. \<exists>new. retrieved E L ps s new sk \<and> clean L new (vorbis s)"])
  show "\<exists>new. retrieved E L ps s new sk \<and> clean L new (vorbis s)"
    using rt cl by blast
next
  fix sk s2
  assume "\<exists>new. retrieved E L ps s new sk \<and> clean L new (vorbis s)"
  then obtain new where n: "retrieved E L ps s new sk" "clean L new (vorbis s)" by blast
  assume one: "ret L (call Vorbis_bitrate_flushpacket sk) = 1"
    and "stage_packet E (call Vorbis_bitrate_flushpacket sk)
           (lib_packet L (vorbis (call Vorbis_bitrate_flushpacket sk))) = Staged s2"
  then have "retrieved E L ps s (Vorbis_bitrate_flushpacket # new) s2"
    by (rule retrieved_stage(3) [OF lay lib n(1)])
  moreover from n(1) have "vorbis sk = new @ vorbis s"
    by (simp add: retrieved_def)
  then have "clean L (Vorbis_bitrate_flushpacket # new) (vorbis s)"
    using n(2) one by (intro clean_call [where sk = sk]) simp_all
  ultimately show "\<exists>new. retrieved E L ps s new s2 \<and> clean L new (vorbis s)" by blast
next
  fix sk
  assume "\<exists>new. retrieved E L ps s new sk \<and> clean L new (vorbis s)"
  then obtain new where n: "retrieved E L ps s new sk" "clean L new (vorbis s)" by blast
  assume one: "ret L (call Vorbis_bitrate_flushpacket sk) = 1"
    and "stage_packet E (call Vorbis_bitrate_flushpacket sk)
           (lib_packet L (vorbis (call Vorbis_bitrate_flushpacket sk))) = Stage_fault"
  with retrieved_stage(1) [OF lay lib n(1) one]
  show "retrieval_exit E L ps s Loop_fault" by simp
next
  fix sk
  assume "\<exists>new. retrieved E L ps s new sk \<and> clean L new (vorbis s)"
  then obtain new where n: "retrieved E L ps s new sk" "clean L new (vorbis s)" by blast
  assume one: "ret L (call Vorbis_bitrate_flushpacket sk) = 1"
    and "stage_packet E (call Vorbis_bitrate_flushpacket sk)
           (lib_packet L (vorbis (call Vorbis_bitrate_flushpacket sk))) = Stage_overflow"
  then have "BUFFER_SIZE < buffer_index sk
      + staged_size E (fst (lib_packet L (vorbis (call Vorbis_bitrate_flushpacket sk))),
          payload (lib_packet L (vorbis (call Vorbis_bitrate_flushpacket sk))))"
    by (rule retrieved_stage(2) [OF lay lib n(1)])
  with n one
  show "retrieval_exit E L ps s (Loop_return (- 1) (call Vorbis_bitrate_flushpacket sk))"
    by (auto simp: retrieval_exit_def)
next
  fix sk
  assume "\<exists>new. retrieved E L ps s new sk \<and> clean L new (vorbis s)"
  then obtain new where n: "retrieved E L ps s new sk" "clean L new (vorbis s)" by blast
  assume "ret L (call Vorbis_bitrate_flushpacket sk) \<noteq> 1"
  then show "retrieval_exit E L ps s
      (Loop_done (ret L (call Vorbis_bitrate_flushpacket sk)) (call Vorbis_bitrate_flushpacket sk))"
    by (intro exit_done [OF n]) (simp_all add: loop_calls_def)
qed

lemma retrieve_packets_exit:
  assumes lay: "layout_ok E" and lib: "lib_ok L"
    and run: "retrieve_packets E L s = Some out"
    and st: "staged E s ps"
  shows "retrieval_exit E L ps s out"
proof (rule retrieve_packets_rule
    [OF run, where I = "\<lambda>sk. \<exists>new. retrieved E L ps s new sk \<and> clean L new (vorbis s)"])
  show "\<exists>new. retrieved E L ps s new s \<and> clean L new (vorbis s)"
    using retrieved_refl [OF st] clean_Nil by blast
next
  fix sk
  assume "\<exists>new. retrieved E L ps s new sk \<and> clean L new (vorbis s)"
  then obtain new where n: "retrieved E L ps s new sk" "clean L new (vorbis s)" by blast
  assume "ret L (call Vorbis_analysis_blockout sk) \<noteq> 1"
  show "retrieval_exit E L ps s
      (Loop_done (ret L (call Vorbis_analysis_blockout sk)) (call Vorbis_analysis_blockout sk))"
    by (intro exit_done [OF n]) (simp_all add: loop_calls_def)
next
  fix sk
  let ?s1 = "call Vorbis_analysis_blockout sk"
  let ?s2 = "call Vorbis_analysis ?s1"
  assume "\<exists>new. retrieved E L ps s new sk \<and> clean L new (vorbis s)"
  then obtain new where n: "retrieved E L ps s new sk" "clean L new (vorbis s)" by blast
  assume b: "ret L ?s1 = 1"
  have r1: "retrieved E L ps s (Vorbis_analysis_blockout # new) ?s1"
    and c1: "clean L (Vorbis_analysis_blockout # new) (vorbis s)"
    using b by (simp_all add: retrieved_step [OF n] loop_calls_def)
  show "retrieval_exit E L ps s (Loop_done (ret L ?s2) ?s2)"
    by (intro exit_done [OF r1 c1]) (simp_all add: loop_calls_def)
next
  fix sk
  let ?s1 = "call Vorbis_analysis_blockout sk"
  let ?s2 = "call Vorbis_analysis ?s1"
  let ?s3 = "call Vorbis_bitrate_addblock ?s2"
  assume "\<exists>new. retrieved E L ps s new sk \<and> clean L new (vorbis s)"
  then obtain new where n: "retrieved E L ps s new sk" "clean L new (vorbis s)" by blast
  assume b: "ret L ?s1 = 1" and a: "0 \<le> ret L ?s2"
  have r1: "retrieved E L ps s (Vorbis_analysis_blockout # new) ?s1"
    and c1: "clean L (Vorbis_analysis_blockout # new) (vorbis s)"
    using b by (simp_all add: retrieved_step [OF n] loop_calls_def)
  have r2: "retrieved E L ps s (Vorbis_analysis # Vorbis_analysis_blockout # new) ?s2"
    and c2: "clean L (Vorbis_analysis # Vorbis_analysis_blockout # new) (vorbis s)"
    using a by (simp_all add: retrieved_step [OF r1 c1] loop_calls_def)
  show "retrieval_exit E L ps s (Loop_done (ret L ?s3) ?s3)"
    by (intro exit_done [OF r2 c2]) (simp_all add: loop_calls_def)
next
  fix sk x
  let ?s1 = "call Vorbis_analysis_blockout sk"
  let ?s2 = "call Vorbis_analysis ?s1"
  let ?s3 = "call Vorbis_bitrate_addblock ?s2"
  assume "\<exists>new. retrieved E L ps s new sk \<and> clean L new (vorbis s)"
  then obtain new where n: "retrieved E L ps s new sk" "clean L new (vorbis s)" by blast
  assume b: "ret L ?s1 = 1" and a: "0 \<le> ret L ?s2" and c: "0 \<le> ret L ?s3"
    and x: "flush_packets E L ?s3 = Some x"
  have r1: "retrieved E L ps s (Vorbis_analysis_blockout # new) ?s1"
    and c1: "clean L (Vorbis_analysis_blockout # new) (vorbis s)"
    using b by (simp_all add: retrieved_step [OF n] loop_calls_def)
  have r2: "retrieved E L ps s (Vorbis_analysis # Vorbis_analysis_blockout # new) ?s2"
    and c2: "clean L (Vorbis_analysis # Vorbis_analysis_blockout # new) (vorbis s)"
    using a by (simp_all add: retrieved_step [OF r1 c1] loop_calls_def)
  have r3: "retrieved E L ps s
      (Vorbis_bitrate_addblock # Vorbis_analysis # Vorbis_analysis_blockout # new) ?s3"
    and c3: "clean L (Vorbis_bitrate_addblock # Vorbis_analysis # Vorbis_analysis_blockout # new)
      (vorbis s)"
    using c by (simp_all add: retrieved_step [OF r2 c2] loop_calls_def)
  show "retrieval_exit E L ps s x"
    by (rule flush_packets_exit [OF lay lib x r3 c3])
next
  fix sk r s4
  let ?s1 = "call Vorbis_analysis_blockout sk"
  let ?s2 = "call Vorbis_analysis ?s1"
  let ?s3 = "call Vorbis_bitrate_addblock ?s2"
  assume "\<exists>new. retrieved E L ps s new sk \<and> clean L new (vorbis s)"
  then obtain new where n: "retrieved E L ps s new sk" "clean L new (vorbis s)" by blast
  assume b: "ret L ?s1 = 1" and a: "0 \<le> ret L ?s2" and c: "0 \<le> ret L ?s3"
    and x: "flush_packets E L ?s3 = Some (Loop_done r s4)" and r: "0 \<le> r"
  have r1: "retrieved E L ps s (Vorbis_analysis_blockout # new) ?s1"
    and c1: "clean L (Vorbis_analysis_blockout # new) (vorbis s)"
    using b by (simp_all add: retrieved_step [OF n] loop_calls_def)
  have r2: "retrieved E L ps s (Vorbis_analysis # Vorbis_analysis_blockout # new) ?s2"
    and c2: "clean L (Vorbis_analysis # Vorbis_analysis_blockout # new) (vorbis s)"
    using a by (simp_all add: retrieved_step [OF r1 c1] loop_calls_def)
  have r3: "retrieved E L ps s
      (Vorbis_bitrate_addblock # Vorbis_analysis # Vorbis_analysis_blockout # new) ?s3"
    and c3: "clean L (Vorbis_bitrate_addblock # Vorbis_analysis # Vorbis_analysis_blockout # new)
      (vorbis s)"
    using c by (simp_all add: retrieved_step [OF r2 c2] loop_calls_def)
  have "retrieval_exit E L ps s (Loop_done r s4)"
    by (rule flush_packets_exit [OF lay lib x r3 c3])
  then show "\<exists>new. retrieved E L ps s new s4 \<and> clean L new (vorbis s)"
    using r by (rule exit_continue)
qed

lemma stage_packet_frame:
  assumes "stage_packet E s p = Staged s2"
  shows "vorbis s2 = vorbis s" "eof s2 = eof s" "dsp_initialized s2 = dsp_initialized s"
    "iblock s2 = iblock s"
  using assms
  by (auto simp: stage_packet_def Let_def split: prod.splits if_splits option.splits)

lemma made_refl: "made s [] s"
  by (simp add: made_def)

lemma made_call:
  assumes "made s new sk" and "c \<in> loop_calls"
  shows "made s (c # new) (call c sk)"
  using assms by (simp add: made_def call_def)

lemma made_clean_call:
  assumes "made s new sk" and "clean L new (vorbis s)" and "0 \<le> ret L (call c sk)"
  shows "clean L (c # new) (vorbis s)"
  using assms by (simp add: made_def clean_def call_def ret_def)

lemma calls_exit_done:
  assumes "made s new sk" and "clean L new (vorbis s)" and "c \<in> loop_calls"
  shows "calls_exit L s (Loop_done (ret L (call c sk)) (call c sk))"
  using made_call [OF assms(1,3)] assms(2)
  by (auto simp: calls_exit_def)

lemma calls_exit_continue:
  assumes "calls_exit L s (Loop_done r s')" and "0 \<le> r"
  shows "\<exists>new. made s new s' \<and> clean L new (vorbis s)"
proof -
  from assms(1) obtain c new where r: "r = ret L s'"
    and m: "made s (c # new) s'" and cl: "clean L new (vorbis s)"
    by (auto simp: calls_exit_def)
  from m have "vorbis s' = c # new @ vorbis s"
    by (simp add: made_def)
  with cl assms(2) r have "clean L (c # new) (vorbis s)"
    by (simp add: clean_def ret_def)
  with m show ?thesis by blast
qed

lemma flush_packets_calls:
  assumes run: "flush_packets E L sk = Some out"
    and m: "made s new sk" and cl: "clean L new (vorbis s)"
  shows "calls_exit L s out"
proof (rule flush_packets_rule
    [OF run, where I = "\<lambda>sk. \<exists>new. made s new sk \<and> clean L new (vorbis s)"])
  show "\<exists>new. made s new sk \<and> clean L new (vorbis s)"
    using m cl by blast
next
  fix sk s2
  assume "\<exists>new. made s new sk \<and> clean L new (vorbis s)"
  then obtain new where n: "made s new sk" "clean L new (vorbis s)" by blast
  assume one: "ret L (call Vorbis_bitrate_flushpacket sk) = 1"
    and st: "stage_packet E (call Vorbis_bitrate_flushpacket sk)
           (lib_packet L (vorbis (call Vorbis_bitrate_flushpacket sk))) = Staged s2"
  have "made s (Vorbis_bitrate_flushpacket # new) (call Vorbis_bitrate_flushpacket sk)"
    by (rule made_call [OF n(1)]) (simp add: loop_calls_def)
  with stage_packet_frame [OF st] have "made s (Vorbis_bitrate_flushpacket # new) s2"
    by (simp add: made_def)
  moreover have "clean L (Vorbis_bitrate_flushpacket # new) (vorbis s)"
    using one by (intro made_clean_call [OF n]) simp
  ultimately show "\<exists>new. made s new s2 \<and> clean L new (vorbis s)" by blast
next
  show "calls_exit L s Loop_fault" by (simp add: calls_exit_def)
next
  fix sk
  assume "\<exists>new. made s new sk \<and> clean L new (vorbis s)"
  then obtain new where n: "made s new sk" "clean L new (vorbis s)" by blast
  assume one: "ret L (call Vorbis_bitrate_flushpacket sk) = 1"
  have "made s (Vorbis_bitrate_flushpacket # new) (call Vorbis_bitrate_flushpacket sk)"
    by (rule made_call [OF n(1)]) (simp add: loop_calls_def)
  with n(2) one
  show "calls_exit L s (Loop_return (- 1) (call Vorbis_bitrate_flushpacket sk))"
    by (auto simp: calls_exit_def)
next
  fix sk
  assume "\<exists>new. made s new sk \<and> clean L new (vorbis s)"
  then obtain new where n: "made s new sk" "clean L new (vorbis s)" by blast
  show "calls_exit L s
      (Loop_done (ret L (call Vorbis_bitrate_flushpacket sk)) (call Vorbis_bitrate_flushpacket sk))"
    by (intro calls_exit_done [OF n]) (simp add: loop_calls_def)
qed

lemma made_step:
  assumes "made s new sk" and "clean L new (vorbis s)"
    and "c \<in> loop_calls" and "0 \<le> ret L (call c sk)"
  shows "made s (c # new) (call c sk)" and "clean L (c # new) (vorbis s)"
  using made_call [OF assms(1,3)] made_clean_call [OF assms(1,2,4)] by simp_all

lemma retrieve_packets_calls:
  assumes run: "retrieve_packets E L s = Some out"
  shows "calls_exit L s out"
proof (rule retrieve_packets_rule
    [OF run, where I = "\<lambda>sk. \<exists>new. made s new sk \<and> clean L new (vorbis s)"])
  show "\<exists>new. made s new s \<and> clean L new (vorbis s)"
    using made_refl clean_Nil by blast
next
  fix sk
  assume "\<exists>new. made s new sk \<and> clean L new (vorbis s)"
  then obtain new where n: "made s new sk" "clean L new (vorbis s)" by blast
  show "calls_exit L s
      (Loop_done (ret L (call Vorbis_analysis_blockout sk)) (call Vorbis_analysis_blockout sk))"
    by (intro calls_exit_done [OF n]) (simp add: loop_calls_def)
next
  fix sk
  let ?s1 = "call Vorbis_analysis_blockout sk"
  let ?s2 = "call Vorbis_analysis ?s1"
  assume "\<exists>new. made s new sk \<and> clean L new (vorbis s)"
  then obtain new where n: "made s new sk" "clean L new (vorbis s)" by blast
  assume b: "ret L ?s1 = 1"
  have m1: "made s (Vorbis_analysis_blockout # new) ?s1"
    and c1: "clean L (Vorbis_analysis_blockout # new) (vorbis s)"
    using b by (simp_all add: made_step [OF n] loop_calls_def)
  show "calls_exit L s (Loop_done (ret L ?s2) ?s2)"
    by (intro calls_exit_done [OF m1 c1]) (simp add: loop_calls_def)
next
  fix sk
  let ?s1 = "call Vorbis_analysis_blockout sk"
  let ?s2 = "call Vorbis_analysis ?s1"
  let ?s3 = "call Vorbis_bitrate_addblock ?s2"
  assume "\<exists>new. made s new sk \<and> clean L new (vorbis s)"
  then obtain new where n: "made s new sk" "clean L new (vorbis s)" by blast
  assume b: "ret L ?s1 = 1" and a: "0 \<le> ret L ?s2"
  have m1: "made s (Vorbis_analysis_blockout # new) ?s1"
    and c1: "clean L (Vorbis_analysis_blockout # new) (vorbis s)"
    using b by (simp_all add: made_step [OF n] loop_calls_def)
  have m2: "made s (Vorbis_analysis # Vorbis_analysis_blockout # new) ?s2"
    and c2: "clean L (Vorbis_analysis # Vorbis_analysis_blockout # new) (vorbis s)"
    using a by (simp_all add: made_step [OF m1 c1] loop_calls_def)
  show "calls_exit L s (Loop_done (ret L ?s3) ?s3)"
    by (intro calls_exit_done [OF m2 c2]) (simp add: loop_calls_def)
next
  fix sk x
  let ?s1 = "call Vorbis_analysis_blockout sk"
  let ?s2 = "call Vorbis_analysis ?s1"
  let ?s3 = "call Vorbis_bitrate_addblock ?s2"
  assume "\<exists>new. made s new sk \<and> clean L new (vorbis s)"
  then obtain new where n: "made s new sk" "clean L new (vorbis s)" by blast
  assume b: "ret L ?s1 = 1" and a: "0 \<le> ret L ?s2" and c: "0 \<le> ret L ?s3"
    and x: "flush_packets E L ?s3 = Some x"
  have m1: "made s (Vorbis_analysis_blockout # new) ?s1"
    and c1: "clean L (Vorbis_analysis_blockout # new) (vorbis s)"
    using b by (simp_all add: made_step [OF n] loop_calls_def)
  have m2: "made s (Vorbis_analysis # Vorbis_analysis_blockout # new) ?s2"
    and c2: "clean L (Vorbis_analysis # Vorbis_analysis_blockout # new) (vorbis s)"
    using a by (simp_all add: made_step [OF m1 c1] loop_calls_def)
  have m3: "made s (Vorbis_bitrate_addblock # Vorbis_analysis # Vorbis_analysis_blockout # new) ?s3"
    and c3: "clean L (Vorbis_bitrate_addblock # Vorbis_analysis # Vorbis_analysis_blockout # new)
      (vorbis s)"
    using c by (simp_all add: made_step [OF m2 c2] loop_calls_def)
  show "calls_exit L s x"
    by (rule flush_packets_calls [OF x m3 c3])
next
  fix sk r s4
  let ?s1 = "call Vorbis_analysis_blockout sk"
  let ?s2 = "call Vorbis_analysis ?s1"
  let ?s3 = "call Vorbis_bitrate_addblock ?s2"
  assume "\<exists>new. made s new sk \<and> clean L new (vorbis s)"
  then obtain new where n: "made s new sk" "clean L new (vorbis s)" by blast
  assume b: "ret L ?s1 = 1" and a: "0 \<le> ret L ?s2" and c: "0 \<le> ret L ?s3"
    and x: "flush_packets E L ?s3 = Some (Loop_done r s4)" and r: "0 \<le> r"
  have m1: "made s (Vorbis_analysis_blockout # new) ?s1"
    and c1: "clean L (Vorbis_analysis_blockout # new) (vorbis s)"
    using b by (simp_all add: made_step [OF n] loop_calls_def)
  have m2: "made s (Vorbis_analysis # Vorbis_analysis_blockout # new) ?s2"
    and c2: "clean L (Vorbis_analysis # Vorbis_analysis_blockout # new) (vorbis s)"
    using a by (simp_all add: made_step [OF m1 c1] loop_calls_def)
  have m3: "made s (Vorbis_bitrate_addblock # Vorbis_analysis # Vorbis_analysis_blockout # new) ?s3"
    and c3: "clean L (Vorbis_bitrate_addblock # Vorbis_analysis # Vorbis_analysis_blockout # new)
      (vorbis s)"
    using c by (simp_all add: made_step [OF m2 c2] loop_calls_def)
  have "calls_exit L s (Loop_done r s4)"
    by (rule flush_packets_calls [OF x m3 c3])
  then show "\<exists>new. made s new s4 \<and> clean L new (vorbis s)"
    using r by (rule calls_exit_continue)
qed

subsection \<open>One call of oggvorbis_encode_frame\<close>

lemma send_samples_Inl:
  assumes "send_samples E L avctx data = Inl (r, s1)"
  shows "s1 = (priv_data avctx)\<lparr>vorbis := send_calls E L avctx data @ vorbis (priv_data avctx)\<rparr>"
    and "ret L s1 < 0" and "r = vorbis_error_to_averror E (ret L s1)"
    and "\<exists>pcm n. hd (send_calls E L avctx data) = Vorbis_analysis_wrote pcm n"
    and "send_calls E L avctx data \<noteq> []"
  using assms
  by (auto simp: send_samples_def send_calls_def Let_def call_def
      split: option.splits if_splits)

lemma send_samples_Inr:
  assumes "send_samples E L avctx data = Inr s1"
  shows "s1 = (priv_data avctx)\<lparr>vorbis := send_calls E L avctx data @ vorbis (priv_data avctx),
                                 eof := (if data = None then 1 else eof (priv_data avctx))\<rparr>"
    and "list_all (\<lambda>x. 0 \<le> x) (returns L (send_calls E L avctx data) (vorbis (priv_data avctx)))"
  using assms
  by (auto simp: send_samples_def send_calls_def Let_def call_def ret_def
      split: option.splits if_splits)

lemma encode_frame_cases [consumes 1, case_names sent_error loop_fault loop_return loop_error emitted]:
  assumes run: "oggvorbis_encode_frame E L avctx buf_size data = Some res"
  obtains r s1 where "send_samples E L avctx data = Inl (r, s1)"
      "res = Return r (avctx\<lparr>priv_data := s1\<rparr>, [])"
  | s1 where "send_samples E L avctx data = Inr s1"
      "retrieve_packets E L s1 = Some Loop_fault" "res = Fault"
  | s1 r s2 where "send_samples E L avctx data = Inr s1"
      "retrieve_packets E L s1 = Some (Loop_return r s2)"
      "res = Return r (avctx\<lparr>priv_data := s2\<rparr>, [])"
  | s1 r s2 where "send_samples E L avctx data = Inr s1"
      "retrieve_packets E L s1 = Some (Loop_done r s2)" "r < 0"
      "res = Return (vorbis_error_to_averror E r) (avctx\<lparr>priv_data := s2\<rparr>, [])"
  | s1 r s2 where "send_samples E L avctx data = Inr s1"
      "retrieve_packets E L s1 = Some (Loop_done r s2)" "0 \<le> r"
      "res = output_packet E (avctx\<lparr>priv_data := s2\<rparr>) buf_size"
proof (cases "send_samples E L avctx data")
  case (Inl a)
  then show ?thesis
    using run that(1) by (cases a) (auto simp: oggvorbis_encode_frame_def)
next
  case (Inr s1)
  with run obtain x where x: "retrieve_packets E L s1 = Some x"
    by (cases "retrieve_packets E L s1") (auto simp: oggvorbis_encode_frame_def)
  show ?thesis
  proof (cases x)
    case Loop_fault
    with run Inr x that(2) show ?thesis by (auto simp: oggvorbis_encode_frame_def)
  next
    case (Loop_return r s2)
    with run Inr x that(3) show ?thesis by (auto simp: oggvorbis_encode_frame_def)
  next
    case (Loop_done r s2)
    with run Inr x that(4,5) show ?thesis
      by (cases "r < 0") (auto simp: oggvorbis_encode_frame_def)
  qed
qed

lemma returns_append: "returns L (new @ sc) h = returns L new (sc @ h) @ returns L sc h"
  by (induction new) simp_all

lemma flushed_append: "flushed L (new @ sc) h = flushed L sc h @ flushed L new (sc @ h)"
  by (induction new) auto

lemma staged_eof [simp]: "staged E (s\<lparr>eof := v\<rparr>) ps = staged E s ps"
  by (simp add: staged_def)

lemma send_samples_staged:
  assumes "staged E (priv_data avctx) ps"
  shows "send_samples E L avctx data = Inl (r, s1) \<Longrightarrow> staged E s1 ps"
    and "send_samples E L avctx data = Inr s1 \<Longrightarrow> staged E s1 ps"
proof -
  show "staged E s1 ps" if "send_samples E L avctx data = Inl (r, s1)"
    using assms by (subst send_samples_Inl(1) [OF that]) simp
  show "staged E s1 ps" if "send_samples E L avctx data = Inr s1"
    using assms by (subst send_samples_Inr(1) [OF that]) simp
qed

subsection \<open>Claims about the staging buffer\<close>

lemma output_packet_empty:
  "buffer_index (priv_data a) = 0 \<Longrightarrow> output_packet E a n = Return 0 (a, [])"
  by (simp add: output_packet_def)

lemma output_packet_no_fault:
  assumes lay: "layout_ok E" and st: "staged E (priv_data a) ps"
    and fr: "coded_frame a \<noteq> None"
  shows "output_packet E a n \<noteq> Fault"
proof (cases ps)
  case Nil
  with staged_empty_iff [OF lay st] show ?thesis
    by (simp add: output_packet_empty)
next
  case (Cons hm qs)
  from fr obtain f where "coded_frame a = Some f" by blast
  from output_packet_staged [OF lay st [unfolded Cons] this] show ?thesis
    by simp
qed

lemma lib_ok_L1: "lib_ok L1"
  by (simp add: lib_ok_def L1_def packet_ok_def P1_def)

lemma staged_A1: "staged E (priv_data A1) []"
  by (simp add: A1_def staged_def S0_def BUFFER_SIZE_def)

lemma retrieved_staged:
  "retrieved E L ps s new s' \<Longrightarrow> staged E s' (ps @ flushed L new (vorbis s))"
  by (simp add: retrieved_def)

text \<open>The last part of a call, on a buffer that holds the queue \<open>q\<close>.\<close>

lemma output_packet_queue:
  assumes lay: "layout_ok E" and st: "staged E (priv_data a) q" and fr: "coded_frame a \<noteq> None"
  shows "\<exists>r a' out. output_packet E a n = Return r (a', out) \<and>
     ((q = [] \<and> r = 0 \<and> out = [] \<and> a' = a) \<or>
      (\<exists>hm rest. q = hm # rest \<and> n < int (length (snd hm)) \<and> r = - 1 \<and> out = [] \<and>
         buffer_index (priv_data a') = buffer_index (priv_data a) \<and>
         staged E (priv_data a') (repointed E hm # rest)) \<or>
      (\<exists>hm rest. q = hm # rest \<and> int (length (snd hm)) \<le> n \<and> r = int (length (snd hm)) \<and>
         out = snd hm \<and>
         buffer_index (priv_data a') = buffer_index (priv_data a) - staged_size E hm \<and>
         staged E (priv_data a') rest))"
proof (cases q)
  case Nil
  with staged_empty_iff [OF lay st] show ?thesis
    by (simp add: output_packet_empty)
next
  case (Cons hm rest)
  from fr obtain f where f: "coded_frame a = Some f" by blast
  note st' = st [unfolded Cons]
  note out = output_packet_staged [OF lay st' f, of n]
  define b1 where "b1 = put_ogg_packet E (fst (repointed E hm))
      @ drop (sizeof_ogg_packet E) (buffer (priv_data a))"
  have rp: "staged E ((priv_data a)\<lparr>buffer := b1\<rparr>) (repointed E hm # rest)"
    unfolding b1_def by (rule staged_repointed [OF lay st'])
  then have len: "length b1 = 65536"
    by (simp add: staged_def BUFFER_SIZE_def)
  have dq: "staged E
     ((priv_data a)\<lparr>buffer := concat (map (wire E) rest)
          @ drop (nat (buffer_index (priv_data a) - staged_size E hm)) b1,
         buffer_index := buffer_index (priv_data a) - staged_size E hm\<rparr>) rest"
    by (rule staged_dequeue [OF lay st' len])
  show ?thesis
  proof (cases "n < int (length (snd hm))")
    case True
    with out rp show ?thesis
      by (simp add: Cons b1_def)
  next
    case False
    with out dq show ?thesis
      by (simp add: Cons b1_def)
  qed
qed

text \<open>A call that gets as far as its last part ends with it.\<close>

lemma encode_frame_emits:
  assumes "send_samples E L avctx data = Inr s1"
    and "retrieve_packets E L s1 = Some (Loop_done r s2)" and "0 \<le> r"
  shows "oggvorbis_encode_frame E L avctx buf_size data
     = Some (output_packet E (avctx\<lparr>priv_data := s2\<rparr>) buf_size)"
  using assms by (simp add: oggvorbis_encode_frame_def)

text \<open>One call, on a buffer that holds the queue \<open>ps\<close>: the packets \<open>qs\<close> it retrieves
  are queued behind \<open>ps\<close>; then nothing is emitted and the queue stays, or the oldest
  packet is too large for the caller and stays, or it is emitted and removed.\<close>

lemma encode_frame_queue:
  assumes lay: "layout_ok E" and lib: "lib_ok L"
    and st: "staged E (priv_data avctx) ps" and fr: "coded_frame avctx \<noteq> None"
    and run: "oggvorbis_encode_frame E L avctx buf_size data = Some res"
  shows "\<exists>r a' out qs. res = Return r (a', out) \<and>
     ((out = [] \<and> staged E (priv_data a') (ps @ qs)) \<or>
      (\<exists>hm rest. ps @ qs = hm # rest \<and> buf_size < int (length (snd hm)) \<and> r = - 1 \<and>
         out = [] \<and> staged E (priv_data a') (repointed E hm # rest)) \<or>
      (\<exists>hm rest. ps @ qs = hm # rest \<and> int (length (snd hm)) \<le> buf_size \<and>
         r = int (length (snd hm)) \<and> out = snd hm \<and> staged E (priv_data a') rest))"
  using run
proof (cases rule: encode_frame_cases)
  case (sent_error r s1)
  from send_samples_staged(1) [OF st sent_error(1)]
  have "staged E (priv_data (avctx\<lparr>priv_data := s1\<rparr>)) (ps @ [])" by simp
  with sent_error(2) show ?thesis by blast
next
  case (loop_fault s1)
  from retrieve_packets_exit [OF lay lib loop_fault(2) send_samples_staged(2) [OF st loop_fault(1)]]
  show ?thesis by (simp add: retrieval_exit_def)
next
  case (loop_return s1 r s2)
  from retrieve_packets_exit [OF lay lib loop_return(2) send_samples_staged(2) [OF st loop_return(1)]]
  obtain new sk where "s2 = call Vorbis_bitrate_flushpacket sk" "retrieved E L ps s1 new sk"
    by (auto simp: retrieval_exit_def)
  then have "staged E (priv_data (avctx\<lparr>priv_data := s2\<rparr>)) (ps @ flushed L new (vorbis s1))"
    by (simp add: retrieved_def)
  with loop_return(3) show ?thesis by blast
next
  case (loop_error s1 r s2)
  from retrieve_packets_exit [OF lay lib loop_error(2) send_samples_staged(2) [OF st loop_error(1)]]
  obtain c new where "retrieved E L ps s1 (c # new) s2"
    by (auto simp: retrieval_exit_def)
  then have "staged E (priv_data (avctx\<lparr>priv_data := s2\<rparr>))
      (ps @ flushed L (c # new) (vorbis s1))"
    by (simp add: retrieved_def)
  with loop_error(4) show ?thesis by blast
next
  case (emitted s1 r s2)
  from retrieve_packets_exit [OF lay lib emitted(2) send_samples_staged(2) [OF st emitted(1)]]
  obtain c new where "retrieved E L ps s1 (c # new) s2"
    by (auto simp: retrieval_exit_def)
  then have q: "staged E (priv_data (avctx\<lparr>priv_data := s2\<rparr>))
      (ps @ flushed L (c # new) (vorbis s1))"
    by (simp add: retrieved_def)
  have f: "coded_frame (avctx\<lparr>priv_data := s2\<rparr>) \<noteq> None"
    using fr by simp
  from output_packet_queue [OF lay q f, of buf_size] obtain r' a' out where
    o: "output_packet E (avctx\<lparr>priv_data := s2\<rparr>) buf_size = Return r' (a', out)"
    and c: "(ps @ flushed L (c # new) (vorbis s1) = [] \<and> r' = 0 \<and> out = [] \<and>
         a' = avctx\<lparr>priv_data := s2\<rparr>) \<or>
      (\<exists>hm rest. ps @ flushed L (c # new) (vorbis s1) = hm # rest \<and>
         buf_size < int (length (snd hm)) \<and> r' = - 1 \<and> out = [] \<and>
         buffer_index (priv_data a') = buffer_index (priv_data (avctx\<lparr>priv_data := s2\<rparr>)) \<and>
         staged E (priv_data a') (repointed E hm # rest)) \<or>
      (\<exists>hm rest. ps @ flushed L (c # new) (vorbis s1) = hm # rest \<and>
         int (length (snd hm)) \<le> buf_size \<and> r' = int (length (snd hm)) \<and>
         out = snd hm \<and>
         buffer_index (priv_data a')
           = buffer_index (priv_data (avctx\<lparr>priv_data := s2\<rparr>)) - staged_size E hm \<and>
         staged E (priv_data a') rest)"
    by blast
  from c q show ?thesis
    unfolding emitted(4) o by blast
qed

lemma L1_simps:
  "lib_ret L1 h = (if length h \<le> 5 then 1 else 0)" "lib_packet L1 h = P1"
  by (simp_all add: L1_def)

lemma E0_simps:
  "sizeof_ogg_packet E0 = 48" "put_ogg_packet E0 = lp64_put" "get_ogg_packet E0 = lp64_get"
  "buffer_address E0 = 4096" "ff_samples_to_time_base E0 a g = sint g"
  by (simp_all add: E0_def)

lemma packet_ok_P1: "packet_ok P1"
  by (simp add: packet_ok_def P1_def)

lemma payload_P1: "payload P1 = [10, 20, 30]" "sint (bytes (fst P1)) = 3"
  by (simp_all add: payload_def P1_def)

lemma stage_P1:
  "stage_packet E0
     \<lparr>vorbis = h, buffer = replicate 65536 0, buffer_index = 0, eof = e,
      dsp_initialized = d, iblock = 0\<rparr> P1
   = Staged \<lparr>vorbis = h, buffer = lp64_put (fst P1) @ [10, 20, 30] @ replicate 65485 0,
             buffer_index = 51, eof = e, dsp_initialized = d, iblock = 0\<rparr>"
proof -
  have st: "staged E0 \<lparr>vorbis = h, buffer = replicate 65536 0, buffer_index = 0, eof = e,
      dsp_initialized = d, iblock = 0\<rparr> []"
    by (simp add: staged_def BUFFER_SIZE_def)
  show ?thesis
    by (subst stage_packet_staged [OF layout_ok_E0 st packet_ok_P1])
      (simp add: staged_size_def payload_P1 E0_simps wire_def BUFFER_SIZE_def)
qed

lemma retrieve_L1:
  "retrieve_packets E0 L1
     \<lparr>vorbis = [Vorbis_analysis_wrote [] 0], buffer = replicate 65536 0, buffer_index = 0,
      eof = 1, dsp_initialized = 1, iblock = 0\<rparr>
   = Some (Loop_done 0
       \<lparr>vorbis = [Vorbis_analysis_blockout, Vorbis_bitrate_flushpacket,
                  Vorbis_bitrate_flushpacket, Vorbis_bitrate_addblock, Vorbis_analysis,
                  Vorbis_analysis_blockout, Vorbis_analysis_wrote [] 0],
        buffer = lp64_put (fst P1) @ [10, 20, 30] @ replicate 65485 0, buffer_index = 51,
        eof = 1, dsp_initialized = 1, iblock = 0\<rparr>)"
  apply (subst retrieve_packets.simps)
  apply (simp add: Let_def call_def ret_def L1_simps)
  apply (subst flush_packets.simps)
  apply (simp add: Let_def call_def ret_def L1_simps stage_P1)
  apply (subst flush_packets.simps)
  apply (simp add: Let_def call_def ret_def L1_simps)
  apply (subst retrieve_packets.simps)
  apply (simp add: Let_def call_def ret_def L1_simps)
  done

lemma staged_one:
  "staged E0 \<lparr>vorbis = h, buffer = lp64_put (fst P1) @ [10, 20, 30] @ replicate 65485 0,
      buffer_index = 51, eof = e, dsp_initialized = d, iblock = 0\<rparr> [(fst P1, [10, 20, 30])]"
  by (simp add: staged_def BUFFER_SIZE_def wire_def E0_simps length_lp64_put payload_P1)

lemma encode_L1:
  "\<exists>a'. oggvorbis_encode_frame E0 L1 A1 16 None = Some (Return 3 (a', [10, 20, 30]))"
proof -
  let ?s2 = "\<lparr>vorbis = [Vorbis_analysis_blockout, Vorbis_bitrate_flushpacket,
                  Vorbis_bitrate_flushpacket, Vorbis_bitrate_addblock, Vorbis_analysis,
                  Vorbis_analysis_blockout, Vorbis_analysis_wrote [] 0],
        buffer = lp64_put (fst P1) @ [10, 20, 30] @ replicate 65485 0, buffer_index = 51,
        eof = 1, dsp_initialized = 1, iblock = 0\<rparr>"
  have s: "send_samples E0 L1 A1 None
      = Inr \<lparr>vorbis = [Vorbis_analysis_wrote [] 0], buffer = replicate 65536 0,
             buffer_index = 0, eof = 1, dsp_initialized = 1, iblock = 0\<rparr>"
    by (simp add: send_samples_def A1_def A0_def S0_def Let_def call_def ret_def L1_simps)
  have e: "oggvorbis_encode_frame E0 L1 A1 16 None
      = Some (output_packet E0 (A1\<lparr>priv_data := ?s2\<rparr>) 16)"
    by (rule encode_frame_emits [OF s retrieve_L1]) simp
  have f: "coded_frame (A1\<lparr>priv_data := ?s2\<rparr>) = Some \<lparr>pts = 0\<rparr>"
    by (simp add: A1_def)
  have st: "staged E0 (priv_data (A1\<lparr>priv_data := ?s2\<rparr>)) [(fst P1, [10, 20, 30])]"
    using staged_one by simp
  from output_packet_staged [OF layout_ok_E0 st f, of 16]
  have "\<exists>a'. output_packet E0 (A1\<lparr>priv_data := ?s2\<rparr>) 16 = Return 3 (a', [10, 20, 30])"
    by simp
  with e show ?thesis by simp
qed

text \<open>
  C2. The bookkeeping of the staging buffer. After every call that returns, the buffer
  holds a queue of packets again and \<open>buffer_index\<close> lies between 0 and
  \<open>BUFFER_SIZE\<close> and is the sum, over the staged packets, of \<open>sizeof(ogg_packet)\<close>
  and the payload length. Appending a packet adds \<open>sizeof(ogg_packet) + op.bytes\<close> to
  it and puts the packet at the end of the queue; handing the oldest packet over takes
  \<open>sizeof(ogg_packet) + pkt_size\<close> from it and leaves the other packets, in order, at
  the front of the buffer.
\<close>

theorem staging_buffer_invariant:
  assumes lay: "layout_ok E" and lib: "lib_ok L"
    and st: "staged E (priv_data avctx) ps" and fr: "coded_frame avctx \<noteq> None"
    and run: "oggvorbis_encode_frame E L avctx buf_size data = Some res"
  shows "(\<exists>r a' out ps'. res = Return r (a', out) \<and> staged E (priv_data a') ps' \<and>
       0 \<le> buffer_index (priv_data a') \<and> buffer_index (priv_data a') \<le> BUFFER_SIZE \<and>
       buffer_index (priv_data a')
         = (\<Sum>hm\<leftarrow>ps'. int (sizeof_ogg_packet E) + int (length (snd hm)))) \<and>
    (\<forall>sk qs p s2. staged E sk qs \<and> packet_ok p \<and> stage_packet E sk p = Staged s2 \<longrightarrow>
       buffer_index s2 = buffer_index sk + int (sizeof_ogg_packet E) + sint (bytes (fst p)) \<and>
       staged E s2 (qs @ [(fst p, payload p)])) \<and>
    (\<forall>a hm qs n. staged E (priv_data a) (hm # qs) \<and> coded_frame a \<noteq> None \<and>
         int (length (snd hm)) \<le> n \<longrightarrow>
       (\<exists>a'. output_packet E a n = Return (int (length (snd hm))) (a', snd hm) \<and>
          buffer_index (priv_data a')
            = buffer_index (priv_data a) - (int (sizeof_ogg_packet E) + int (length (snd hm))) \<and>
          staged E (priv_data a') qs))"
proof (intro conjI allI impI)
  from encode_frame_queue [OF lay lib st fr run]
  obtain r a' out ps' where res: "res = Return r (a', out)" and q: "staged E (priv_data a') ps'"
    by blast
  from staged_index_sum [OF lay q]
  have "buffer_index (priv_data a')
      = (\<Sum>hm\<leftarrow>ps'. int (sizeof_ogg_packet E) + int (length (snd hm)))"
    by (simp add: staged_size_def [abs_def])
  moreover from q have "0 \<le> buffer_index (priv_data a')"
    "buffer_index (priv_data a') \<le> BUFFER_SIZE"
    by (simp_all add: staged_def)
  ultimately show "\<exists>r a' out ps'. res = Return r (a', out) \<and> staged E (priv_data a') ps' \<and>
       0 \<le> buffer_index (priv_data a') \<and> buffer_index (priv_data a') \<le> BUFFER_SIZE \<and>
       buffer_index (priv_data a')
         = (\<Sum>hm\<leftarrow>ps'. int (sizeof_ogg_packet E) + int (length (snd hm)))"
    using res q by blast
next
  fix sk qs p s2
  assume a: "staged E sk qs \<and> packet_ok p \<and> stage_packet E sk p = Staged s2"
  then have st': "staged E sk qs" and ok: "packet_ok p" and s2: "stage_packet E sk p = Staged s2"
    by simp_all
  have size: "staged_size E (fst p, payload p) = int (sizeof_ogg_packet E) + sint (bytes (fst p))"
    using payload_ok [OF ok] by (simp add: staged_size_def)
  from s2 have fit: "buffer_index sk + staged_size E (fst p, payload p) \<le> BUFFER_SIZE"
    by (simp add: stage_packet_staged [OF lay st' ok] split: if_splits)
  from s2 fit have eq: "s2 = sk\<lparr>buffer := take (nat (buffer_index sk)) (buffer sk)
                                 @ wire E (fst p, payload p)
                                 @ drop (nat (buffer_index sk + staged_size E (fst p, payload p)))
                                     (buffer sk),
                      buffer_index := buffer_index sk + staged_size E (fst p, payload p)\<rparr>"
    by (simp add: stage_packet_staged [OF lay st' ok])
  show "buffer_index s2 = buffer_index sk + int (sizeof_ogg_packet E) + sint (bytes (fst p))"
    by (simp add: eq size)
  show "staged E s2 (qs @ [(fst p, payload p)])"
    unfolding eq by (rule staged_enqueue [OF lay st' ok fit])
next
  fix a :: AVCodecContext and hm qs n
  assume a: "staged E (priv_data a) (hm # qs) \<and> coded_frame a \<noteq> None \<and>
         int (length (snd hm)) \<le> n"
  then have st': "staged E (priv_data a) (hm # qs)" and f: "coded_frame a \<noteq> None"
    and n: "int (length (snd hm)) \<le> n"
    by simp_all
  from output_packet_queue [OF lay st' f, of n] n
  show "\<exists>a'. output_packet E a n = Return (int (length (snd hm))) (a', snd hm) \<and>
          buffer_index (priv_data a')
            = buffer_index (priv_data a) - (int (sizeof_ogg_packet E) + int (length (snd hm))) \<and>
          staged E (priv_data a') qs"
    by (auto simp: staged_size_def)
qed

theorem staging_buffer_invariant_witness:
  "\<exists>a'. layout_ok E0 \<and> lib_ok L1 \<and> staged E0 (priv_data A1) [] \<and> coded_frame A1 \<noteq> None \<and>
     oggvorbis_encode_frame E0 L1 A1 16 None = Some (Return 3 (a', [10, 20, 30])) \<and>
     (\<exists>ps'. staged E0 (priv_data a') ps' \<and>
        0 \<le> buffer_index (priv_data a') \<and> buffer_index (priv_data a') \<le> BUFFER_SIZE \<and>
        buffer_index (priv_data a')
          = (\<Sum>hm\<leftarrow>ps'. int (sizeof_ogg_packet E0) + int (length (snd hm))))"
proof -
  from encode_L1 obtain a' where
    run: "oggvorbis_encode_frame E0 L1 A1 16 None = Some (Return 3 (a', [10, 20, 30]))" ..
  have fr: "coded_frame A1 \<noteq> None" by (simp add: A1_def)
  from staging_buffer_invariant [OF layout_ok_E0 lib_ok_L1 staged_A1 fr run]
  have "\<exists>ps'. staged E0 (priv_data a') ps' \<and>
        0 \<le> buffer_index (priv_data a') \<and> buffer_index (priv_data a') \<le> BUFFER_SIZE \<and>
        buffer_index (priv_data a')
          = (\<Sum>hm\<leftarrow>ps'. int (sizeof_ogg_packet E0) + int (length (snd hm)))"
    by auto
  with run layout_ok_E0 lib_ok_L1 staged_A1 [of E0] fr show ?thesis by blast
qed

lemma lp64_put_inj: "lp64_put h = lp64_put h' \<Longrightarrow> h = h'"
  by (metis lp64_get_put)

lemma L2_simps:
  "lib_ret L2 h = (if length h \<le> 5 then 1 else if length h = 6 then - 1 else 0)"
  "lib_packet L2 h = P1"
  by (simp_all add: L2_def)

lemma retrieve_L2_first:
  "retrieve_packets E0 L2
     \<lparr>vorbis = [Vorbis_analysis_wrote [] 0], buffer = replicate 65536 0, buffer_index = 0,
      eof = 1, dsp_initialized = 1, iblock = 0\<rparr>
   = Some (Loop_done (- 1) (priv_data AY))"
  apply (subst retrieve_packets.simps)
  apply (simp add: Let_def call_def ret_def L2_simps)
  apply (subst flush_packets.simps)
  apply (simp add: Let_def call_def ret_def L2_simps stage_P1)
  apply (subst flush_packets.simps)
  apply (simp add: Let_def call_def ret_def L2_simps AY_def)
  done

lemma retrieve_L2_second:
  "retrieve_packets E0 L2 (priv_data AY)
   = Some (Loop_done 0 (call Vorbis_analysis_blockout (priv_data AY)))"
  by (subst retrieve_packets.simps) (simp add: Let_def ret_def call_def L2_simps AY_def)

lemma staged_AY: "staged E0 (priv_data AY) [(fst P1, [10, 20, 30])]"
  using staged_one by (simp add: AY_def)

lemma output_AY:
  "output_packet E0 (AY\<lparr>priv_data := call Vorbis_analysis_blockout (priv_data AY)\<rparr>) 2
   = Return (- 1) (AY', [])"
proof -
  let ?a = "AY\<lparr>priv_data := call Vorbis_analysis_blockout (priv_data AY)\<rparr>"
  have st: "staged E0 (priv_data ?a) [(fst P1, [10, 20, 30])]"
    using staged_AY by simp
  have f: "coded_frame ?a = Some \<lparr>pts = 0\<rparr>"
    by (simp add: AY_def A1_def)
  show ?thesis
    by (subst output_packet_staged [OF layout_ok_E0 st f])
      (simp add: AY_def AY'_def A1_def E0_simps repointed_def call_def length_lp64_put P1_def)
qed

text \<open>
  C8 as stated fails. A first call at the end of the stream, in which the encoder hands
  \<open>P1\<close> over and then fails, returns the error and leaves \<open>AY\<close>: the packet is
  staged, its header holds the pointer libvorbis gave. The next call, with an output
  buffer of two bytes, returns -1 and leaves \<open>AY'\<close>: \<open>buffer_index\<close> is the same, the
  staging buffer is not, its first bytes now hold the pointer to the staged payload.
\<close>

theorem undersized_output_counterexample:
  "oggvorbis_encode_frame E0 L2 A1 2 None = Some (Return (AVERROR_UNKNOWN E0) (AY, [])) \<and>
   oggvorbis_encode_frame E0 L2 AY 2 None = Some (Return (- 1) (AY', [])) \<and>
   buffer_index (priv_data AY') = buffer_index (priv_data AY) \<and>
   buffer (priv_data AY') \<noteq> buffer (priv_data AY)"
proof -
  have s1: "send_samples E0 L2 A1 None
      = Inr \<lparr>vorbis = [Vorbis_analysis_wrote [] 0], buffer = replicate 65536 0,
             buffer_index = 0, eof = 1, dsp_initialized = 1, iblock = 0\<rparr>"
    by (simp add: send_samples_def A1_def A0_def S0_def Let_def call_def ret_def L2_simps)
  have m: "vorbis_error_to_averror E0 (- 1) = AVERROR_UNKNOWN E0"
    by (simp add: vorbis_error_to_averror_def E0_def)
  have y: "A1\<lparr>priv_data := priv_data AY\<rparr> = AY"
    by (simp add: AY_def)
  have first: "oggvorbis_encode_frame E0 L2 A1 2 None
      = Some (Return (AVERROR_UNKNOWN E0) (AY, []))"
    by (simp add: oggvorbis_encode_frame_def s1 retrieve_L2_first m y)
  have s2: "send_samples E0 L2 AY None = Inr (priv_data AY)"
    by (simp add: send_samples_def AY_def)
  have "oggvorbis_encode_frame E0 L2 AY 2 None
      = Some (output_packet E0 (AY\<lparr>priv_data := call Vorbis_analysis_blockout (priv_data AY)\<rparr>) 2)"
    by (rule encode_frame_emits [OF s2 retrieve_L2_second]) simp
  then have second: "oggvorbis_encode_frame E0 L2 AY 2 None = Some (Return (- 1) (AY', []))"
    by (simp add: output_AY)
  have "buffer (priv_data AY') \<noteq> buffer (priv_data AY)"
  proof
    assume "buffer (priv_data AY') = buffer (priv_data AY)"
    then have "lp64_put ((fst P1)\<lparr>packet := 4144\<rparr>) = lp64_put (fst P1)"
      by (simp add: AY_def AY'_def length_lp64_put)
    then have "(fst P1)\<lparr>packet := 4144\<rparr> = fst P1"
      by (rule lp64_put_inj)
    then have "packet ((fst P1)\<lparr>packet := 4144\<rparr>) = packet (fst P1)"
      by simp
    then show False by (simp add: P1_def)
  qed
  moreover have "buffer_index (priv_data AY') = buffer_index (priv_data AY)"
    by (simp add: AY_def AY'_def)
  ultimately show ?thesis using first second by simp
qed

lemma output_packet_frame:
  assumes "output_packet E a n = Return r (a', out)"
  shows "vorbis (priv_data a') = vorbis (priv_data a)" "eof (priv_data a') = eof (priv_data a)"
    "dsp_initialized (priv_data a') = dsp_initialized (priv_data a)"
  using assms
  by (auto simp: output_packet_def Let_def split: if_splits option.splits)

lemma status_loop_calls: "c \<in> loop_calls \<Longrightarrow> status_call c"
  by (auto simp: loop_calls_def)

lemma returns_loop_calls:
  "set new \<subseteq> loop_calls \<Longrightarrow> c \<in> loop_calls \<Longrightarrow>
   returns L (c # new) h = lib_ret L (c # new @ h) # returns L new h"
  by (simp add: status_loop_calls)

text \<open>The calls of one invocation, and what they returned.\<close>

lemma encode_frame_trace:
  assumes run: "oggvorbis_encode_frame E L avctx buf_size data = Some (Return r (a', out))"
  defines "h \<equiv> vorbis (priv_data avctx)"
  defines "sc \<equiv> send_calls E L avctx data"
  shows "\<exists>new. vorbis (priv_data a') = new @ sc @ h \<and> set new \<subseteq> loop_calls \<and>
     dsp_initialized (priv_data a') = dsp_initialized (priv_data avctx) \<and>
     (if sc \<noteq> [] \<and> lib_ret L (sc @ h) < 0
      then new = [] \<and> r = vorbis_error_to_averror E (lib_ret L (sc @ h)) \<and>
           eof (priv_data a') = eof (priv_data avctx)
      else eof (priv_data a') = (if data = None then 1 else eof (priv_data avctx))) \<and>
     (\<forall>x\<in>set (returns L (new @ sc) h). x < 0 \<longrightarrow> r = vorbis_error_to_averror E x)"
  using run
proof (cases rule: encode_frame_cases)
  case (sent_error r' s1)
  note i = send_samples_Inl [OF sent_error(1), folded sc_def h_def]
  from sent_error(2) have a': "a' = avctx\<lparr>priv_data := s1\<rparr>" and r: "r = r'" by simp_all
  have v: "vorbis s1 = sc @ h" by (subst i(1)) simp
  from i(4) i(5) obtain pcm n rest where sc: "sc = Vorbis_analysis_wrote pcm n # rest"
    by (cases sc) auto
  have rest: "returns L rest h = []"
    using sc by (auto simp: sc_def send_calls_def split: option.splits if_splits)
  have "returns L sc h = [lib_ret L (sc @ h)]"
    by (simp add: sc rest)
  moreover have "lib_ret L (sc @ h) < 0" "r = vorbis_error_to_averror E (lib_ret L (sc @ h))"
    using i(2,3) v r by (simp_all add: ret_def)
  moreover have "eof (priv_data a') = eof (priv_data avctx)"
    "dsp_initialized (priv_data a') = dsp_initialized (priv_data avctx)"
    unfolding a' by (subst i(1), simp)+
  ultimately show ?thesis
    using v i(5) by (intro exI [where x = "[]"]) (simp add: a')
next
  case (loop_fault s1)
  then show ?thesis by simp
next
  case (loop_return s1 r' s2)
  note i = send_samples_Inr [OF loop_return(1), folded sc_def h_def]
  from loop_return(3) have a': "a' = avctx\<lparr>priv_data := s2\<rparr>" and r: "r = r'" by simp_all
  have v: "vorbis s1 = sc @ h" by (subst i(1)) simp
  from retrieve_packets_calls [OF loop_return(2)]
  obtain new where r': "r' = - 1" and one: "ret L s2 = 1"
    and m: "made s1 (Vorbis_bitrate_flushpacket # new) s2" and cl: "clean L new (vorbis s1)"
    by (auto simp: calls_exit_def)
  let ?new = "Vorbis_bitrate_flushpacket # new"
  from m have v2: "vorbis s2 = ?new @ sc @ h" and sub: "set ?new \<subseteq> loop_calls"
    and e: "eof s2 = eof s1" "dsp_initialized s2 = dsp_initialized s1"
    by (simp_all add: made_def v)
  have "list_all (\<lambda>x. 0 \<le> x) (returns L (?new @ sc) h)"
    using cl one i(2) v v2 by (simp add: returns_append clean_def ret_def)
  then have none: "\<forall>x\<in>set (returns L (?new @ sc) h). \<not> x < 0"
    by (simp add: list_all_iff not_less)
  have nonneg: "sc \<noteq> [] \<Longrightarrow> \<not> lib_ret L (sc @ h) < 0"
    using i(2) by (cases sc) (auto simp: sc_def send_calls_def split: option.splits if_splits)
  have "eof s1 = (if data = None then 1 else eof (priv_data avctx))"
    "dsp_initialized s1 = dsp_initialized (priv_data avctx)"
    by (subst i(1), simp)+
  with e v2 sub none nonneg show ?thesis
    by (intro exI [where x = ?new]) (auto simp: a')
next
  case (loop_error s1 r' s2)
  note i = send_samples_Inr [OF loop_error(1), folded sc_def h_def]
  from loop_error(4) have a': "a' = avctx\<lparr>priv_data := s2\<rparr>"
    and r: "r = vorbis_error_to_averror E r'" by simp_all
  have v: "vorbis s1 = sc @ h" by (subst i(1)) simp
  from retrieve_packets_calls [OF loop_error(2)]
  obtain c new where r': "r' = ret L s2"
    and m: "made s1 (c # new) s2" and cl: "clean L new (vorbis s1)"
    by (auto simp: calls_exit_def)
  from m have v2: "vorbis s2 = (c # new) @ sc @ h" and sub: "set (c # new) \<subseteq> loop_calls"
    and e: "eof s2 = eof s1" "dsp_initialized s2 = dsp_initialized s1"
    by (simp_all add: made_def v)
  have rs: "returns L ((c # new) @ sc) h = r' # returns L new (sc @ h) @ returns L sc h"
    using sub v2 r' by (simp add: returns_append status_loop_calls ret_def)
  have "list_all (\<lambda>x. 0 \<le> x) (returns L new (sc @ h) @ returns L sc h)"
    using cl i(2) v by (simp add: clean_def)
  then have "\<forall>x\<in>set (returns L new (sc @ h) @ returns L sc h). \<not> x < 0"
    by (simp add: list_all_iff not_less)
  then have none: "\<forall>x\<in>set (returns L ((c # new) @ sc) h). x < 0 \<longrightarrow> x = r'"
    unfolding rs by auto
  have nonneg: "sc \<noteq> [] \<Longrightarrow> \<not> lib_ret L (sc @ h) < 0"
    using i(2) by (cases sc) (auto simp: sc_def send_calls_def split: option.splits if_splits)
  have "eof s1 = (if data = None then 1 else eof (priv_data avctx))"
    "dsp_initialized s1 = dsp_initialized (priv_data avctx)"
    by (subst i(1), simp)+
  with e v2 sub none nonneg r show ?thesis
    by (intro exI [where x = "c # new"]) (auto simp: a')
next
  case (emitted s1 r' s2)
  note i = send_samples_Inr [OF emitted(1), folded sc_def h_def]
  note o = output_packet_frame [OF emitted(4) [symmetric]]
  have v: "vorbis s1 = sc @ h" by (subst i(1)) simp
  from retrieve_packets_calls [OF emitted(2)]
  obtain c new where r': "r' = ret L s2"
    and m: "made s1 (c # new) s2" and cl: "clean L new (vorbis s1)"
    by (auto simp: calls_exit_def)
  from m have v2: "vorbis s2 = (c # new) @ sc @ h" and sub: "set (c # new) \<subseteq> loop_calls"
    and e: "eof s2 = eof s1" "dsp_initialized s2 = dsp_initialized s1"
    by (simp_all add: made_def v)
  have rs: "returns L ((c # new) @ sc) h = r' # returns L new (sc @ h) @ returns L sc h"
    using sub v2 r' by (simp add: returns_append status_loop_calls ret_def)
  have "list_all (\<lambda>x. 0 \<le> x) (returns L new (sc @ h) @ returns L sc h)"
    using cl i(2) v by (simp add: clean_def)
  then have "\<forall>x\<in>set (returns L new (sc @ h) @ returns L sc h). \<not> x < 0"
    by (simp add: list_all_iff not_less)
  then have none: "\<forall>x\<in>set (returns L ((c # new) @ sc) h). \<not> x < 0"
    unfolding rs using emitted(3) by auto
  have nonneg: "sc \<noteq> [] \<Longrightarrow> \<not> lib_ret L (sc @ h) < 0"
    using i(2) by (cases sc) (auto simp: sc_def send_calls_def split: option.splits if_splits)
  have "eof s1 = (if data = None then 1 else eof (priv_data avctx))"
    "dsp_initialized s1 = dsp_initialized (priv_data avctx)"
    by (subst i(1), simp)+
  with e v2 sub none nonneg o show ?thesis
    by (intro exI [where x = "c # new"]) auto
qed

subsection \<open>Claims about the samples and the end of the stream\<close>

lemma close_calls:
  "vorbis (priv_data (snd (oggvorbis_encode_close a)))
   = [Vorbis_info_clear, Vorbis_dsp_clear, Vorbis_block_clear]
     @ (if dsp_initialized (priv_data a) \<noteq> 0 then [Vorbis_analysis_wrote [] 0] else [])
     @ vorbis (priv_data a)"
  by (simp add: oggvorbis_encode_close_def Let_def vcall_def call_def)

text \<open>
  C9 as stated fails. With an encoder whose calls fail, the first call without data
  makes the zero-length write and returns the error with \<open>eof\<close> still clear, so the
  second call without data makes the zero-length write again.
\<close>

theorem end_of_stream_counterexample:
  "oggvorbis_encode_frame E0 L3 A1 16 None = Some (Return (AVERROR_UNKNOWN E0) (AZ, [])) \<and>
   vorbis (priv_data AZ) = [Vorbis_analysis_wrote [] 0] \<and> eof (priv_data AZ) = 0 \<and>
   oggvorbis_encode_frame E0 L3 AZ 16 None = Some (Return (AVERROR_UNKNOWN E0) (AZ', [])) \<and>
   vorbis (priv_data AZ') = [Vorbis_analysis_wrote [] 0, Vorbis_analysis_wrote [] 0] \<and>
   eof (priv_data AZ') = 0"
proof -
  have m: "vorbis_error_to_averror E0 (- 1) = AVERROR_UNKNOWN E0"
    by (simp add: vorbis_error_to_averror_def E0_def)
  have s1: "send_samples E0 L3 A1 None = Inl (AVERROR_UNKNOWN E0, priv_data AZ)"
    by (simp add: send_samples_def A1_def AZ_def S0_def Let_def call_def ret_def L3_def m)
  have s2: "send_samples E0 L3 AZ None = Inl (AVERROR_UNKNOWN E0, priv_data AZ')"
    by (simp add: send_samples_def AZ_def AZ'_def S0_def Let_def call_def ret_def L3_def m)
  have y: "A1\<lparr>priv_data := priv_data AZ\<rparr> = AZ" "AZ\<lparr>priv_data := priv_data AZ'\<rparr> = AZ'"
    by (simp_all add: AZ_def AZ'_def)
  show ?thesis
    by (simp add: oggvorbis_encode_frame_def s1 s2 y) (simp add: AZ_def AZ'_def S0_def)
qed



subsection \<open>Packing the headers\<close>

lemma av_xiphlacing_eq:
  "av_xiphlacing v = (replicate (v div 255) 255 @ [of_nat (v mod 255)], 1 + v div 255)"
proof (induction v rule: av_xiphlacing.induct)
  case (1 v)
  show ?case
  proof (cases "255 \<le> v")
    case True
    then have d: "v div 255 = Suc ((v - 255) div 255)" "v mod 255 = (v - 255) mod 255"
      by (simp_all add: le_div_geq le_mod_geq)
    from 1 [OF True] True show ?thesis
      by (subst av_xiphlacing.simps) (simp add: d)
  next
    case False
    then show ?thesis
      by (subst av_xiphlacing.simps) simp
  qed
qed

lemma xiph_len_nonneg: "0 \<le> l \<Longrightarrow> xiph_len l = 1 + l div 255 + l"
  by (simp add: xiph_len_def c_div_def sgn_if)

text \<open>A store right behind what has been written so far.\<close>

lemma store_next:
  assumes "off = int (length pre)" and "length src \<le> length rest"
  shows "store (pre @ rest) off src = Some (pre @ src @ drop (length src) rest)"
  using assms by (simp add: store_def)

lemma load_payload:
  assumes "packet_ok hm"
  shows "load (snd hm) 0 (uint (bytes (fst hm))) = Some (payload hm)"
  using assms by (simp add: load_def packet_ok_def payload_def uint_sint_nonneg)

lemma length_payload: "packet_ok hm \<Longrightarrow> int (length (payload hm)) = sint (bytes (fst hm))"
  by (simp add: payload_ok)

lemma length_av_xiphlacing:
  "length (fst (av_xiphlacing v)) = 1 + v div 255" "snd (av_xiphlacing v) = 1 + v div 255"
  by (simp_all add: av_xiphlacing_eq)

text \<open>The extradata after the packing: the marker, the two lacings, the three packets,
  and behind them what the allocated block held.\<close>

lemma pack_headers_ok:
  fixes h1 h2 h3 :: "ogg_packet \<times> byte list"
  defines "b1 \<equiv> sint (bytes (fst h1))" and "b2 \<equiv> sint (bytes (fst h2))"
    and "b3 \<equiv> sint (bytes (fst h3))"
  defines "S \<equiv> 1 + xiph_len b1 + xiph_len b2 + b3"
  assumes ok: "headers_ok (h1, h2, h3)" and len: "S \<le> int (length p)"
  shows "pack_headers p h1 h2 h3
     = Some ([2] @ fst (av_xiphlacing (nat b1)) @ fst (av_xiphlacing (nat b2))
             @ payload h1 @ payload h2 @ payload h3 @ drop (nat S) p, S)"
proof -
  from ok have p1: "packet_ok h1" and p2: "packet_ok h2" and p3: "packet_ok h3"
    and small: "S < 2 ^ 31"
    by (simp_all add: headers_ok_def S_def b1_def b2_def b3_def)
  have nn: "0 \<le> b1" "0 \<le> b2" "0 \<le> b3"
    using p1 p2 p3 by (simp_all add: packet_ok_def b1_def b2_def b3_def)
  define l1 where "l1 = fst (av_xiphlacing (nat b1))"
  define l2 where "l2 = fst (av_xiphlacing (nat b2))"
  have x: "xiph_len b1 = 1 + b1 div 255 + b1" "xiph_len b2 = 1 + b2 div 255 + b2"
    using nn by (simp_all add: xiph_len_nonneg)
  have d: "0 \<le> b1 div 255" "0 \<le> b2 div 255"
    using nn by (simp_all add: pos_imp_zdiv_nonneg_iff)
  have S: "S = 1 + (1 + b1 div 255) + (1 + b2 div 255) + b1 + b2 + b3"
    by (simp add: S_def x)
  have ll: "int (length l1) = 1 + b1 div 255" "int (length l2) = 1 + b2 div 255"
    using nn by (simp_all add: l1_def l2_def length_av_xiphlacing zdiv_int)
  have sn: "int (snd (av_xiphlacing (nat b1))) = 1 + b1 div 255"
    "int (snd (av_xiphlacing (nat b2))) = 1 + b2 div 255"
    using nn by (simp_all add: length_av_xiphlacing zdiv_int)
  have u: "to_uint b1 = b1" "to_uint b2 = b2"
    using nn d S small by (simp_all add: to_uint_id)
  have lp: "int (length (payload h1)) = b1" "int (length (payload h2)) = b2"
    "int (length (payload h3)) = b3"
    using p1 p2 p3 by (simp_all add: length_payload b1_def b2_def b3_def)
  obtain a1 m1 where h1: "h1 = (a1, m1)" by (cases h1)
  obtain a2 m2 where h2: "h2 = (a2, m2)" by (cases h2)
  obtain a3 m3 where h3: "h3 = (a3, m3)" by (cases h3)
  have bb: "sint (bytes a1) = b1" "sint (bytes a2) = b2" "sint (bytes a3) = b3"
    by (simp_all add: b1_def b2_def b3_def h1 h2 h3)
  define f1 where "f1 = to_uint (1 + int (snd (av_xiphlacing (nat b1))))"
  define f2 where "f2 = to_uint (f1 + int (snd (av_xiphlacing (nat b2))))"
  define f3 where "f3 = to_uint (f2 + b1)"
  define f4 where "f4 = to_uint (f3 + b2)"
  define f5 where "f5 = to_uint (f4 + b3)"
  have o1: "f1 = int (length ([2 :: byte] @ l1))"
    using nn d S small by (simp add: f1_def sn ll to_uint_id)
  have o2: "f2 = int (length ([2 :: byte] @ l1 @ l2))"
    using nn d S small by (simp add: f2_def o1 sn ll to_uint_id)
  have o3: "f3 = int (length ([2 :: byte] @ l1 @ l2 @ payload h1))"
    using nn d S small by (simp add: f3_def o2 ll lp to_uint_id)
  have o4: "f4 = int (length ([2 :: byte] @ l1 @ l2 @ payload h1 @ payload h2))"
    using nn d S small by (simp add: f4_def o3 ll lp to_uint_id)
  have o5: "f5 = S"
    using nn d S small by (simp add: f5_def o4 ll lp to_uint_id)
  have eqn: "pack_headers p h1 h2 h3 =
      do {
        p0 \<leftarrow> store p 0 [2];
        p1 \<leftarrow> store p0 1 l1;
        p2 \<leftarrow> store p1 f1 l2;
        d1 \<leftarrow> load m1 0 (uint (bytes a1));
        p3 \<leftarrow> store p2 f2 d1;
        d2 \<leftarrow> load m2 0 (uint (bytes a2));
        p4 \<leftarrow> store p3 f3 d2;
        d3 \<leftarrow> load m3 0 (uint (bytes a3));
        p5 \<leftarrow> store p4 f4 d3;
        Some (p5, f5)
      }"
    by (simp add: pack_headers_def h1 h2 h3 Let_def bb u l1_def l2_def f1_def f2_def f3_def
        f4_def f5_def)
  have tot: "1 + length l1 + length l2 + length (payload h1) + length (payload h2)
      + length (payload h3) \<le> length p"
    using len nn d S ll lp by linarith
  have s0: "store p 0 [2] = Some ([2] @ drop 1 p)"
  proof -
    have "length ([2 :: byte]) \<le> length (p)"
      using tot by simp
    from store_next [of "0" "[]" "[2 :: byte]" "p", OF _ this] 
    show ?thesis by simp
  qed
  have s1: "store ([2] @ drop 1 p) 1 l1 = Some (([2] @ l1) @ drop (length l1) (drop 1 p))"
  proof -
    have "length (l1) \<le> length (drop 1 p)"
      using tot by simp
    from store_next [of "1" "[2 :: byte]" "l1" "drop 1 p", OF _ this] 
    show ?thesis by simp
  qed
  have s2: "store (([2] @ l1) @ drop (length l1) (drop 1 p)) f1 l2
      = Some (([2] @ l1 @ l2) @ drop (length l2) (drop (length l1) (drop 1 p)))"
  proof -
    have "length (l2) \<le> length (drop (length l1) (drop 1 p))"
      using tot by simp
    from store_next [of "f1" "[2] @ l1" "l2" "drop (length l1) (drop 1 p)", OF _ this] o1
    show ?thesis by simp
  qed
  have s3: "store (([2] @ l1 @ l2) @ drop (length l2) (drop (length l1) (drop 1 p)))
        f2 (payload h1)
      = Some (([2] @ l1 @ l2 @ payload h1)
          @ drop (length (payload h1)) (drop (length l2) (drop (length l1) (drop 1 p))))"
  proof -
    have "length (payload h1) \<le> length (drop (length l2) (drop (length l1) (drop 1 p)))"
      using tot by simp
    from store_next [of "f2" "[2] @ l1 @ l2" "payload h1" "drop (length l2) (drop (length l1) (drop 1 p))", OF _ this] o2
    show ?thesis by simp
  qed
  have s4: "store (([2] @ l1 @ l2 @ payload h1)
          @ drop (length (payload h1)) (drop (length l2) (drop (length l1) (drop 1 p))))
        f3 (payload h2)
      = Some (([2] @ l1 @ l2 @ payload h1 @ payload h2)
          @ drop (length (payload h2))
              (drop (length (payload h1)) (drop (length l2) (drop (length l1) (drop 1 p)))))"
  proof -
    have "length (payload h2) \<le> length (drop (length (payload h1)) (drop (length l2) (drop (length l1) (drop 1 p))))"
      using tot by simp
    from store_next [of "f3" "[2] @ l1 @ l2 @ payload h1" "payload h2" "drop (length (payload h1)) (drop (length l2) (drop (length l1) (drop 1 p)))", OF _ this] o3
    show ?thesis by simp
  qed
  have s5: "store (([2] @ l1 @ l2 @ payload h1 @ payload h2)
          @ drop (length (payload h2))
              (drop (length (payload h1)) (drop (length l2) (drop (length l1) (drop 1 p)))))
        f4 (payload h3)
      = Some (([2] @ l1 @ l2 @ payload h1 @ payload h2 @ payload h3)
          @ drop (length (payload h3)) (drop (length (payload h2))
              (drop (length (payload h1)) (drop (length l2) (drop (length l1) (drop 1 p))))))"
  proof -
    have "length (payload h3) \<le> length (drop (length (payload h2)) (drop (length (payload h1)) (drop (length l2) (drop (length l1) (drop 1 p)))))"
      using tot by simp
    from store_next [of "f4" "[2] @ l1 @ l2 @ payload h1 @ payload h2" "payload h3" "drop (length (payload h2)) (drop (length (payload h1)) (drop (length l2) (drop (length l1) (drop 1 p))))", OF _ this] o4
    show ?thesis by simp
  qed
  have dr: "drop (length (payload h3)) (drop (length (payload h2))
              (drop (length (payload h1)) (drop (length l2) (drop (length l1) (drop 1 p)))))
      = drop (nat S) p"
  proof -
    have "length (payload h3) + (length (payload h2) + (length (payload h1)
        + (length l2 + (length l1 + 1)))) = nat S"
      using nn d S ll lp by linarith
    then show ?thesis by (simp add: ac_simps)
  qed
  have ld: "load m1 0 (uint (bytes a1)) = Some (payload h1)"
    "load m2 0 (uint (bytes a2)) = Some (payload h2)"
    "load m3 0 (uint (bytes a3)) = Some (payload h3)"
    using load_payload [OF p1] load_payload [OF p2] load_payload [OF p3]
    by (simp_all add: h1 h2 h3)
  show ?thesis
    unfolding eqn using s0 s1 s2 s3 s4 s5 ld dr o5
    by (simp add: l1_def [symmetric] l2_def [symmetric])
qed

subsection \<open>The calls of the set-up\<close>

lemma calls_since_append [simp]: "calls_since h (new @ h) = new"
  by (simp add: calls_since_def)

lemma traced_start: "traced L a [] (0, a)"
  by (simp add: traced_def)

lemma traced_step:
  assumes "traced L a new ra" and st: "status_call c"
  shows "traced L a (if fst ra \<noteq> 0 \<or> \<not> cond then new else c # new) (step L cond c ra)"
proof (cases "fst ra \<noteq> 0 \<or> \<not> cond")
  case True
  with assms(1) show ?thesis by (simp add: step_def)
next
  case False
  then have z: "fst ra = 0" by simp
  with assms(1) have all: "list_all (\<lambda>x. x = 0) (returns L new (vorbis (priv_data a)))"
    by (auto simp: traced_def)
  from assms(1) have s: "snd ra = a\<lparr>priv_data := (priv_data a)\<lparr>vorbis := new @ vorbis (priv_data a)\<rparr>\<rparr>"
    by (simp add: traced_def)
  show ?thesis
    using False all st
    by (auto simp: traced_def step_def s vcall_def vret_def call_def ret_def)
qed


lemma traced_step_ex:
  assumes "traced L a new ra" and "status_call c"
  shows "\<exists>l. traced L a (l @ new) (step L cond c ra) \<and> (l = [] \<or> l = [c])"
proof (cases "fst ra \<noteq> 0 \<or> \<not> cond")
  case True
  with traced_step [OF assms, of cond] have "traced L a ([] @ new) (step L cond c ra)"
    by simp
  then show ?thesis by blast
next
  case False
  with traced_step [OF assms, of cond] have "traced L a ([c] @ new) (step L cond c ra)"
    by simp
  then show ?thesis by blast
qed

text \<open>The calls of \<open>oggvorbis_init_encoder\<close>.\<close>

lemma init_encoder_traced:
  "\<exists>later ra. traced L a (later @ [rate_call E a]) ra \<and>
     list_all (\<lambda>c. \<not> rate_setup c) later \<and>
     oggvorbis_init_encoder E L a
       = (if fst ra \<noteq> 0 then vorbis_error_to_averror E (fst ra) else 0, snd ra)"
proof -
  let ?c1 = "Vorbis_encode_ctl OV_ECTL_RATEMANAGE2_SET None"
  let ?cond1 = "(if rc_min_rate a > 0 then rc_min_rate a else - 1) = - 1
        \<and> (if rc_max_rate a > 0 then rc_max_rate a else - 1) = - 1"
  let ?r0 = "step L True (rate_call E a) (0, a)"
  define rate where "rate =
     (if flags a AND CODEC_FLAG_QSCALE E \<noteq> 0 \<or> bit_rate a = 0 then ?r0
      else step L ?cond1 ?c1 ?r0)"
  let ?c2 = "Vorbis_encode_ctl OV_ECTL_LOWPASS_SET (Some (real_of_int (cutoff a) / 1000))"
  let ?c3 = "Vorbis_encode_ctl OV_ECTL_IBLOCK_SET (Some (iblock (priv_data a)))"
  define lowpass where "lowpass = step L (cutoff a > 0) ?c2 rate"
  define impulse where "impulse = step L (iblock (priv_data a) \<noteq> 0) ?c3 lowpass"
  define ready where "ready = step L True Vorbis_encode_setup_init impulse"
  have res: "oggvorbis_init_encoder E L a
      = (if fst ready \<noteq> 0 then vorbis_error_to_averror E (fst ready) else 0, snd ready)"
    by (simp add: oggvorbis_init_encoder_def Let_def ready_def impulse_def lowpass_def rate_def
        rate_call_def)
  have sc: "status_call (rate_call E a)"
    by (simp add: rate_call_def)
  from traced_step [OF traced_start sc, of L a True]
  have t0: "traced L a [rate_call E a] ?r0"
    by simp
  have "\<exists>l1. traced L a (l1 @ [rate_call E a]) rate \<and> (l1 = [] \<or> l1 = [?c1])"
  proof (cases "flags a AND CODEC_FLAG_QSCALE E \<noteq> 0 \<or> bit_rate a = 0")
    case True
    then have "rate = ?r0" by (simp only: rate_def if_True)
    with t0 show ?thesis by (intro exI [where x = "[]"]) simp
  next
    case False
    then have "rate = step L ?cond1 ?c1 ?r0" by (simp only: rate_def if_False)
    with traced_step_ex [OF t0, of ?c1 ?cond1] show ?thesis by simp
  qed
  then obtain l1 where t1: "traced L a (l1 @ [rate_call E a]) rate"
    and n1: "l1 = [] \<or> l1 = [?c1]" by blast
  from traced_step_ex [OF t1, of ?c2 "cutoff a > 0"]
  obtain l2 where t2: "traced L a (l2 @ l1 @ [rate_call E a]) lowpass"
    and n2: "l2 = [] \<or> l2 = [?c2]"
    unfolding lowpass_def by auto
  from traced_step_ex [OF t2, of ?c3 "iblock (priv_data a) \<noteq> 0"]
  obtain l3 where t3: "traced L a (l3 @ l2 @ l1 @ [rate_call E a]) impulse"
    and n3: "l3 = [] \<or> l3 = [?c3]"
    unfolding impulse_def by auto
  from traced_step_ex [OF t3, of Vorbis_encode_setup_init True]
  obtain l4 where t4: "traced L a (l4 @ l3 @ l2 @ l1 @ [rate_call E a]) ready"
    and n4: "l4 = [] \<or> l4 = [Vorbis_encode_setup_init]"
    unfolding ready_def by auto
  have "list_all (\<lambda>c. \<not> rate_setup c) (l4 @ l3 @ l2 @ l1)"
    using n1 n2 n3 n4 by auto
  moreover have "traced L a ((l4 @ l3 @ l2 @ l1) @ [rate_call E a]) ready"
    using t4 by simp
  ultimately show ?thesis using res by blast
qed

subsection \<open>The loops end\<close>

lemma pending_calls:
  assumes "lib_finite L \<mu>" and "set new \<subseteq> loop_calls"
  shows "\<mu> (new @ h) \<le> \<mu> h"
  using assms(2)
proof (induction new)
  case Nil
  show ?case by simp
next
  case (Cons c new)
  then have "\<mu> (c # new @ h) \<le> \<mu> (new @ h)" "\<mu> (new @ h) \<le> \<mu> h"
    using assms(1) by (simp_all add: lib_finite_def)
  then show ?case by simp
qed

lemma flush_packets_returns:
  assumes fin: "lib_finite L \<mu>"
  shows "\<exists>out. flush_packets E L sk = Some out"
proof (induction "\<mu> (vorbis sk)" arbitrary: sk rule: less_induct)
  case less
  let ?s1 = "call Vorbis_bitrate_flushpacket sk"
  show ?case
  proof (cases "ret L ?s1 = 1")
    case False
    then show ?thesis by (subst flush_packets.simps) (simp add: Let_def)
  next
    case True
    show ?thesis
    proof (cases "stage_packet E ?s1 (lib_packet L (vorbis ?s1))")
      case Stage_fault
      with True show ?thesis by (subst flush_packets.simps) (simp add: Let_def)
    next
      case Stage_overflow
      with True show ?thesis by (subst flush_packets.simps) (simp add: Let_def)
    next
      case (Staged s2)
      from stage_packet_frame(1) [OF Staged] have v: "vorbis s2 = vorbis ?s1" .
      have "\<mu> (vorbis s2) < \<mu> (vorbis sk)"
        using fin True by (simp add: v lib_finite_def ret_def call_def)
      from less [OF this] obtain out where "flush_packets E L s2 = Some out" ..
      with True Staged show ?thesis by (subst flush_packets.simps) (simp add: Let_def)
    qed
  qed
qed

lemma retrieve_packets_returns:
  assumes fin: "lib_finite L \<mu>"
  shows "\<exists>out. retrieve_packets E L s = Some out"
proof (induction "\<mu> (vorbis s)" arbitrary: s rule: less_induct)
  case less
  let ?s1 = "call Vorbis_analysis_blockout s"
  let ?s2 = "call Vorbis_analysis ?s1"
  let ?s3 = "call Vorbis_bitrate_addblock ?s2"
  show ?case
  proof (cases "ret L ?s1 = 1")
    case False
    then show ?thesis by (subst retrieve_packets.simps) (simp add: Let_def)
  next
    case b: True
    show ?thesis
    proof (cases "ret L ?s2 < 0 \<or> ret L ?s3 < 0")
      case True
      with b show ?thesis by (subst retrieve_packets.simps) (auto simp: Let_def)
    next
      case False
      from flush_packets_returns [OF fin] obtain x where x: "flush_packets E L ?s3 = Some x" ..
      show ?thesis
      proof (cases x)
        case Loop_fault
        with b False x show ?thesis by (subst retrieve_packets.simps) (simp add: Let_def)
      next
        case (Loop_return r s4)
        with b False x show ?thesis by (subst retrieve_packets.simps) (simp add: Let_def)
      next
        case (Loop_done r s4)
        show ?thesis
        proof (cases "r < 0")
          case True
          with b False x Loop_done show ?thesis
            by (subst retrieve_packets.simps) (simp add: Let_def)
        next
          case nonneg: False
          from flush_packets_calls [OF x made_refl clean_Nil] Loop_done
          obtain c new where "made ?s3 (c # new) s4"
            by (auto simp: calls_exit_def)
          then have v: "vorbis s4 = (c # new) @ vorbis ?s3" and sub: "set (c # new) \<subseteq> loop_calls"
            by (simp_all add: made_def)
          have "\<mu> (vorbis s4) \<le> \<mu> (vorbis ?s3)"
            unfolding v by (rule pending_calls [OF fin sub])
          also have "\<mu> (vorbis ?s3) \<le> \<mu> (vorbis ?s1)"
            using pending_calls [OF fin, of "[Vorbis_bitrate_addblock, Vorbis_analysis]" "vorbis ?s1"]
            by (simp add: call_def loop_calls_def)
          also have "\<mu> (vorbis ?s1) < \<mu> (vorbis s)"
            using fin b by (simp add: lib_finite_def ret_def call_def)
          finally have "\<mu> (vorbis s4) < \<mu> (vorbis s)" .
          from less [OF this] obtain out where "retrieve_packets E L s4 = Some out" ..
          with b False x Loop_done nonneg show ?thesis
            by (subst retrieve_packets.simps) (simp add: Let_def)
        qed
      qed
    qed
  qed
qed

text \<open>A call on a buffer that holds a queue returns.\<close>

lemma encode_frame_returns:
  assumes lay: "layout_ok E" and lib: "lib_ok L" and fin: "lib_finite L \<mu>"
    and st: "staged E (priv_data avctx) ps" and fr: "coded_frame avctx \<noteq> None"
  shows "\<exists>r a' out. oggvorbis_encode_frame E L avctx buf_size data = Some (Return r (a', out))"
proof -
  have "\<exists>res. oggvorbis_encode_frame E L avctx buf_size data = Some res"
  proof (cases "send_samples E L avctx data")
    case (Inl a)
    then show ?thesis by (cases a) (simp add: oggvorbis_encode_frame_def)
  next
    case (Inr s1)
    from retrieve_packets_returns [OF fin] obtain x where "retrieve_packets E L s1 = Some x" ..
    with Inr show ?thesis
      by (cases x) (simp_all add: oggvorbis_encode_frame_def)
  qed
  then obtain res where run: "oggvorbis_encode_frame E L avctx buf_size data = Some res" ..
  from encode_frame_queue [OF lay lib st fr run] run show ?thesis by blast
qed

lemma lib_finite_L1: "lib_finite L1 pending0"
  by (auto simp: lib_finite_def pending0_def L1_def)

lemma lib_finite_L2: "lib_finite L2 pending0"
  by (auto simp: lib_finite_def pending0_def L2_def)

subsection \<open>What one call does, by what libvorbis answered\<close>

lemma flushed_send_calls: "flushed L (send_calls E L avctx data) h = []"
  by (auto simp: send_calls_def split: option.splits)

lemma queue_size_staged:
  assumes "layout_ok E" and "staged E s q"
  shows "queue_size E q = buffer_index s" and "queue_size E q \<le> BUFFER_SIZE"
  using staged_index_sum [OF assms] assms(2) by (simp_all add: queue_size_def staged_def)

lemma queue_size_append: "queue_size E (q @ q') = queue_size E q + queue_size E q'"
  by (simp add: queue_size_def)

lemma frame_calls_eq:
  "vorbis (priv_data a') = new @ vorbis (priv_data avctx) \<Longrightarrow> frame_calls avctx a' = new"
  by (simp add: frame_calls_def)

text \<open>One call that returns, by what libvorbis answered and handed over in it: a call
  failed; or a packet did not fit; or the call got to its last part with every packet
  handed over in the queue.\<close>

lemma encode_frame_summary:
  assumes lay: "layout_ok E" and lib: "lib_ok L"
    and st: "staged E (priv_data avctx) ps"
    and run: "oggvorbis_encode_frame E L avctx buf_size data = Some (Return r (a', out))"
  shows "(\<exists>neg zs. answers L avctx a' = neg # zs \<and> neg < 0 \<and> list_all (\<lambda>x. 0 \<le> x) zs \<and>
        r = vorbis_error_to_averror E neg \<and> out = [] \<and>
        staged E (priv_data a') (ps @ handed L avctx a') \<and>
        a' = avctx\<lparr>priv_data := priv_data a'\<rparr>) \<or>
     (list_all (\<lambda>x. 0 \<le> x) (answers L avctx a') \<and>
        BUFFER_SIZE < queue_size E (ps @ handed L avctx a') \<and> r = - 1 \<and> out = [] \<and>
        handed L avctx a' \<noteq> [] \<and> staged E (priv_data a') (ps @ butlast (handed L avctx a')) \<and>
        (\<exists>new. frame_calls avctx a' = Vorbis_bitrate_flushpacket # new) \<and>
        a' = avctx\<lparr>priv_data := priv_data a'\<rparr>) \<or>
     (list_all (\<lambda>x. 0 \<le> x) (answers L avctx a') \<and>
        (\<exists>s2. staged E s2 (ps @ handed L avctx a') \<and>
           output_packet E (avctx\<lparr>priv_data := s2\<rparr>) buf_size = Return r (a', out)))"
  using run
proof (cases rule: encode_frame_cases)
  case (sent_error r' s1)
  let ?sc = "send_calls E L avctx data"
  let ?h = "vorbis (priv_data avctx)"
  note i = send_samples_Inl [OF sent_error(1)]
  from sent_error(2) have a': "a' = avctx\<lparr>priv_data := s1\<rparr>" and r: "r = r'" and o: "out = []"
    by simp_all
  have v: "vorbis s1 = ?sc @ ?h" by (subst i(1)) simp
  then have fc: "frame_calls avctx a' = ?sc"
    by (intro frame_calls_eq) (simp add: a')
  from i(4) i(5) obtain pcm n rest where sc: "?sc = Vorbis_analysis_wrote pcm n # rest"
    by (cases ?sc) auto
  have rest: "returns L rest ?h = []"
    using sc by (auto simp: send_calls_def split: option.splits if_splits)
  have "returns L ?sc ?h = [lib_ret L (?sc @ ?h)]"
    by (simp add: sc rest)
  then have an: "answers L avctx a' = [ret L s1]"
    by (simp add: answers_def fc ret_def v)
  have hd: "handed L avctx a' = []"
    by (simp add: handed_def fc flushed_send_calls)
  have "staged E (priv_data a') ps"
    using send_samples_staged(1) [OF st sent_error(1)] by (simp add: a')
  moreover have "a' = avctx\<lparr>priv_data := priv_data a'\<rparr>" by (simp add: a')
  ultimately show ?thesis
    using an i(2,3) r o by (simp add: hd)
next
  case (loop_fault s1)
  then show ?thesis by simp
next
  case (loop_return s1 r' s2)
  let ?sc = "send_calls E L avctx data"
  let ?h = "vorbis (priv_data avctx)"
  note i = send_samples_Inr [OF loop_return(1)]
  from loop_return(3) have a': "a' = avctx\<lparr>priv_data := s2\<rparr>" and r: "r = r'" and o: "out = []"
    by simp_all
  have v: "vorbis s1 = ?sc @ ?h" by (subst i(1)) simp
  from retrieve_packets_exit [OF lay lib loop_return(2) send_samples_staged(2) [OF st loop_return(1)]]
  obtain new sk where r': "r' = - 1" and s2: "s2 = call Vorbis_bitrate_flushpacket sk"
    and rt: "retrieved E L ps s1 new sk" and cl: "clean L new (vorbis s1)"
    and one: "ret L s2 = 1"
    and big: "BUFFER_SIZE < buffer_index sk
               + staged_size E (fst (lib_packet L (vorbis s2)), payload (lib_packet L (vorbis s2)))"
    by (auto simp: retrieval_exit_def)
  let ?new = "Vorbis_bitrate_flushpacket # new"
  let ?p = "(fst (lib_packet L (vorbis s2)), payload (lib_packet L (vorbis s2)))"
  from rt have vk: "vorbis sk = new @ ?sc @ ?h" and sub: "set new \<subseteq> loop_calls"
    and sk: "staged E sk (ps @ flushed L new (?sc @ ?h))"
    by (simp_all add: retrieved_def v)
  have v2: "vorbis s2 = (?new @ ?sc) @ ?h"
    by (simp add: s2 call_def vk)
  then have fc: "frame_calls avctx a' = ?new @ ?sc"
    by (intro frame_calls_eq) (simp add: a')
  have "list_all (\<lambda>x. 0 \<le> x) (returns L (?new @ ?sc) ?h)"
    using cl one i(2) v v2 by (simp add: returns_append clean_def ret_def)
  then have an: "list_all (\<lambda>x. 0 \<le> x) (answers L avctx a')"
    by (simp add: answers_def fc)
  have "flushed L (?new @ ?sc) ?h = flushed L new (?sc @ ?h) @ [?p]"
    using one v2 by (simp add: flushed_append flushed_send_calls ret_def)
  then have hd: "handed L avctx a' = flushed L new (?sc @ ?h) @ [?p]"
    by (simp add: handed_def fc)
  have "queue_size E (ps @ handed L avctx a') = buffer_index sk + staged_size E ?p"
    using queue_size_staged(1) [OF lay sk] by (simp add: hd queue_size_def)
  with big have over: "BUFFER_SIZE < queue_size E (ps @ handed L avctx a')" by simp
  have "staged E (priv_data a') (ps @ flushed L new (?sc @ ?h))"
    using sk by (simp add: a' s2)
  moreover have "a' = avctx\<lparr>priv_data := priv_data a'\<rparr>" by (simp add: a')
  ultimately show ?thesis
    using an over r r' o fc by (simp add: hd)
next
  case (loop_error s1 r' s2)
  let ?sc = "send_calls E L avctx data"
  let ?h = "vorbis (priv_data avctx)"
  note i = send_samples_Inr [OF loop_error(1)]
  from loop_error(4) have a': "a' = avctx\<lparr>priv_data := s2\<rparr>"
    and r: "r = vorbis_error_to_averror E r'" and o: "out = []"
    by simp_all
  have v: "vorbis s1 = ?sc @ ?h" by (subst i(1)) simp
  from retrieve_packets_exit [OF lay lib loop_error(2) send_samples_staged(2) [OF st loop_error(1)]]
  obtain c new where r': "r' = ret L s2"
    and rt: "retrieved E L ps s1 (c # new) s2" and cl: "clean L new (vorbis s1)"
    by (auto simp: retrieval_exit_def)
  from rt have v2: "vorbis s2 = ((c # new) @ ?sc) @ ?h" and sub: "set (c # new) \<subseteq> loop_calls"
    and s2: "staged E s2 (ps @ flushed L (c # new) (?sc @ ?h))"
    by (simp_all add: retrieved_def v)
  have fc: "frame_calls avctx a' = (c # new) @ ?sc"
    using v2 by (intro frame_calls_eq) (simp add: a')
  have rs: "returns L ((c # new) @ ?sc) ?h = r' # returns L new (?sc @ ?h) @ returns L ?sc ?h"
    using sub v2 r' by (simp add: returns_append status_loop_calls ret_def)
  have z: "list_all (\<lambda>x. 0 \<le> x) (returns L new (?sc @ ?h) @ returns L ?sc ?h)"
    using cl i(2) v by (simp add: clean_def)
  have hd: "handed L avctx a' = flushed L (c # new) (?sc @ ?h)"
    unfolding handed_def fc by (simp only: flushed_append flushed_send_calls append_Nil)
  have "staged E (priv_data a') (ps @ flushed L (c # new) (?sc @ ?h))"
    using s2 by (simp add: a')
  moreover have "a' = avctx\<lparr>priv_data := priv_data a'\<rparr>" by (simp add: a')
  moreover have "answers L avctx a' = r' # returns L new (?sc @ ?h) @ returns L ?sc ?h"
    using rs by (simp add: answers_def fc)
  ultimately show ?thesis
    using z loop_error(3) r o by (simp add: hd)
next
  case (emitted s1 r' s2)
  let ?sc = "send_calls E L avctx data"
  let ?h = "vorbis (priv_data avctx)"
  note i = send_samples_Inr [OF emitted(1)]
  note o = output_packet_frame [OF emitted(4) [symmetric]]
  have v: "vorbis s1 = ?sc @ ?h" by (subst i(1)) simp
  from retrieve_packets_exit [OF lay lib emitted(2) send_samples_staged(2) [OF st emitted(1)]]
  obtain c new where r': "r' = ret L s2"
    and rt: "retrieved E L ps s1 (c # new) s2" and cl: "clean L new (vorbis s1)"
    by (auto simp: retrieval_exit_def)
  from rt have v2: "vorbis s2 = ((c # new) @ ?sc) @ ?h" and sub: "set (c # new) \<subseteq> loop_calls"
    and s2: "staged E s2 (ps @ flushed L (c # new) (?sc @ ?h))"
    by (simp_all add: retrieved_def v)
  have fc: "frame_calls avctx a' = (c # new) @ ?sc"
    using v2 o(1) by (intro frame_calls_eq) simp
  have rs: "returns L ((c # new) @ ?sc) ?h = r' # returns L new (?sc @ ?h) @ returns L ?sc ?h"
    using sub v2 r' by (simp add: returns_append status_loop_calls ret_def)
  have z: "list_all (\<lambda>x. 0 \<le> x) (returns L new (?sc @ ?h) @ returns L ?sc ?h)"
    using cl i(2) v by (simp add: clean_def)
  have an: "list_all (\<lambda>x. 0 \<le> x) (answers L avctx a')"
    using rs z emitted(3) by (simp add: answers_def fc)
  have hd: "handed L avctx a' = flushed L (c # new) (?sc @ ?h)"
    unfolding handed_def fc by (simp only: flushed_append flushed_send_calls append_Nil)
  have "staged E s2 (ps @ handed L avctx a')"
    using s2 by (simp add: hd)
  with an emitted(4) show ?thesis
    by auto
qed

subsection \<open>Writes into the staging buffer\<close>

text \<open>
  C1. Writes into the staging buffer are bounded. A call of \<open>oggvorbis_encode_frame\<close>
  that starts with the buffer holding a queue returns, without any access out of
  bounds, and leaves a buffer of 65536 bytes. Before a packet is appended the sum of
  \<open>buffer_index\<close>, \<open>sizeof(ogg_packet)\<close> and \<open>op.bytes\<close> is compared with
  \<open>BUFFER_SIZE\<close>. When the packets handed over in the call do not all fit behind
  those staged before, the call returns -1 right after the call of
  \<open>vorbis_bitrate_flushpacket\<close> that handed over the first packet that does not fit,
  and of that packet nothing has been written: the buffer holds the packets before it.
  Otherwise every packet handed over has been appended before the call ends or goes on
  to its last part.
\<close>

theorem staging_writes_bounded:
  assumes lay: "layout_ok E" and lib: "lib_ok L" and fin: "lib_finite L pending"
    and st: "staged E (priv_data avctx) ps" and fr: "coded_frame avctx \<noteq> None"
  shows "(\<exists>r a' out.
       oggvorbis_encode_frame E L avctx buf_size data = Some (Return r (a', out)) \<and>
       int (length (buffer (priv_data a'))) = BUFFER_SIZE \<and>
       (if BUFFER_SIZE < queue_size E (ps @ handed L avctx a')
        then r = - 1 \<and> out = [] \<and> handed L avctx a' \<noteq> [] \<and>
             (\<exists>new. frame_calls avctx a' = Vorbis_bitrate_flushpacket # new) \<and>
             a' = avctx\<lparr>priv_data := priv_data a'\<rparr> \<and>
             staged E (priv_data a') (ps @ butlast (handed L avctx a'))
        else \<exists>s2. staged E s2 (ps @ handed L avctx a') \<and>
               ((a' = avctx\<lparr>priv_data := s2\<rparr> \<and> out = []) \<or>
                output_packet E (avctx\<lparr>priv_data := s2\<rparr>) buf_size = Return r (a', out)))) \<and>
    (\<forall>sk qs p. staged E sk qs \<and> packet_ok p \<longrightarrow>
       (if BUFFER_SIZE < buffer_index sk + int (sizeof_ogg_packet E) + sint (bytes (fst p))
        then stage_packet E sk p = Stage_overflow
        else \<exists>s2. stage_packet E sk p = Staged s2 \<and> int (length (buffer s2)) = BUFFER_SIZE \<and>
               staged E s2 (qs @ [(fst p, payload p)])))"
proof (intro conjI allI impI)
  from encode_frame_returns [OF lay lib fin st fr] obtain r a' out where
    run: "oggvorbis_encode_frame E L avctx buf_size data = Some (Return r (a', out))"
    by blast
  from encode_frame_queue [OF lay lib st fr run] obtain q where "staged E (priv_data a') q"
    by auto
  then have len: "int (length (buffer (priv_data a'))) = BUFFER_SIZE"
    by (simp add: staged_def)
  let ?q = "ps @ handed L avctx a'"
  from encode_frame_summary [OF lay lib st run]
  consider
    (failed) "staged E (priv_data a') ?q" "a' = avctx\<lparr>priv_data := priv_data a'\<rparr>" "out = []"
    | (overflow) "BUFFER_SIZE < queue_size E ?q" "r = - 1" "out = []" "handed L avctx a' \<noteq> []"
        "\<exists>new. frame_calls avctx a' = Vorbis_bitrate_flushpacket # new"
        "a' = avctx\<lparr>priv_data := priv_data a'\<rparr>"
        "staged E (priv_data a') (ps @ butlast (handed L avctx a'))"
    | (emitted) s2 where "staged E s2 ?q"
        "output_packet E (avctx\<lparr>priv_data := s2\<rparr>) buf_size = Return r (a', out)"
    by blast
  then have "if BUFFER_SIZE < queue_size E ?q
        then r = - 1 \<and> out = [] \<and> handed L avctx a' \<noteq> [] \<and>
             (\<exists>new. frame_calls avctx a' = Vorbis_bitrate_flushpacket # new) \<and>
             a' = avctx\<lparr>priv_data := priv_data a'\<rparr> \<and>
             staged E (priv_data a') (ps @ butlast (handed L avctx a'))
        else \<exists>s2. staged E s2 ?q \<and>
               ((a' = avctx\<lparr>priv_data := s2\<rparr> \<and> out = []) \<or>
                output_packet E (avctx\<lparr>priv_data := s2\<rparr>) buf_size = Return r (a', out))"
  proof cases
    case failed
    from queue_size_staged(2) [OF lay failed(1)] have "\<not> BUFFER_SIZE < queue_size E ?q" by simp
    moreover from failed have "\<exists>s2. staged E s2 ?q \<and>
               ((a' = avctx\<lparr>priv_data := s2\<rparr> \<and> out = []) \<or>
                output_packet E (avctx\<lparr>priv_data := s2\<rparr>) buf_size = Return r (a', out))"
      by blast
    ultimately show ?thesis by simp
  next
    case overflow
    then show ?thesis by simp
  next
    case (emitted s2)
    from queue_size_staged(2) [OF lay emitted(1)] have "\<not> BUFFER_SIZE < queue_size E ?q" by simp
    moreover from emitted have "\<exists>s2. staged E s2 ?q \<and>
               ((a' = avctx\<lparr>priv_data := s2\<rparr> \<and> out = []) \<or>
                output_packet E (avctx\<lparr>priv_data := s2\<rparr>) buf_size = Return r (a', out))"
      by blast
    ultimately show ?thesis by simp
  qed
  with run len show "\<exists>r a' out.
       oggvorbis_encode_frame E L avctx buf_size data = Some (Return r (a', out)) \<and>
       int (length (buffer (priv_data a'))) = BUFFER_SIZE \<and>
       (if BUFFER_SIZE < queue_size E (ps @ handed L avctx a')
        then r = - 1 \<and> out = [] \<and> handed L avctx a' \<noteq> [] \<and>
             (\<exists>new. frame_calls avctx a' = Vorbis_bitrate_flushpacket # new) \<and>
             a' = avctx\<lparr>priv_data := priv_data a'\<rparr> \<and>
             staged E (priv_data a') (ps @ butlast (handed L avctx a'))
        else \<exists>s2. staged E s2 (ps @ handed L avctx a') \<and>
               ((a' = avctx\<lparr>priv_data := s2\<rparr> \<and> out = []) \<or>
                output_packet E (avctx\<lparr>priv_data := s2\<rparr>) buf_size = Return r (a', out)))"
    by blast
next
  fix sk qs p
  assume a: "staged E sk qs \<and> packet_ok p"
  then have st': "staged E sk qs" and ok: "packet_ok p" by simp_all
  have size: "staged_size E (fst p, payload p) = int (sizeof_ogg_packet E) + sint (bytes (fst p))"
    using payload_ok [OF ok] by (simp add: staged_size_def)
  show "if BUFFER_SIZE < buffer_index sk + int (sizeof_ogg_packet E) + sint (bytes (fst p))
        then stage_packet E sk p = Stage_overflow
        else \<exists>s2. stage_packet E sk p = Staged s2 \<and> int (length (buffer s2)) = BUFFER_SIZE \<and>
               staged E s2 (qs @ [(fst p, payload p)])"
  proof (cases "BUFFER_SIZE < buffer_index sk + int (sizeof_ogg_packet E) + sint (bytes (fst p))")
    case True
    then show ?thesis
      using size by (simp add: stage_packet_staged [OF lay st' ok])
  next
    case False
    then have fit: "buffer_index sk + staged_size E (fst p, payload p) \<le> BUFFER_SIZE"
      using size by simp
    let ?s2 = "sk\<lparr>buffer := take (nat (buffer_index sk)) (buffer sk)
                                 @ wire E (fst p, payload p)
                                 @ drop (nat (buffer_index sk + staged_size E (fst p, payload p)))
                                     (buffer sk),
                      buffer_index := buffer_index sk + staged_size E (fst p, payload p)\<rparr>"
    have q: "staged E ?s2 (qs @ [(fst p, payload p)])"
      by (rule staged_enqueue [OF lay st' ok fit])
    then have "int (length (buffer ?s2)) = BUFFER_SIZE"
      unfolding staged_def by (elim conjE)
    moreover have "stage_packet E sk p = Staged ?s2"
      using fit by (simp add: stage_packet_staged [OF lay st' ok])
    ultimately have "\<exists>s2. stage_packet E sk p = Staged s2 \<and>
        int (length (buffer s2)) = BUFFER_SIZE \<and> staged E s2 (qs @ [(fst p, payload p)])"
      using q by blast
    with False show ?thesis by simp
  qed
qed

lemma staged_AF: "staged E0 (priv_data AF) [PF]"
proof -
  have "replicate 65488 (0 :: byte) = replicate 65480 0 @ replicate 8 0"
    by (simp add: replicate_add [symmetric])
  then show ?thesis
    by (simp add: staged_def BUFFER_SIZE_def wire_def E0_def length_lp64_put P1_def PF_def AF_def)
qed

text \<open>A call at the end of the stream on the full buffer: the packet handed over does
  not fit.\<close>

lemma encode_AF: "oggvorbis_encode_frame E0 L1 AF 16 None = Some (Return (- 1) (AF', []))"
proof -
  let ?s1 = "(priv_data AF)\<lparr>vorbis := [Vorbis_analysis_wrote [] 0], eof := 1\<rparr>"
  let ?sk = "(priv_data AF)\<lparr>vorbis := [Vorbis_bitrate_addblock, Vorbis_analysis,
                        Vorbis_analysis_blockout, Vorbis_analysis_wrote [] 0], eof := 1\<rparr>"
  have s: "send_samples E0 L1 AF None = Inr ?s1"
    by (simp add: send_samples_def AF_def A1_def Let_def call_def ret_def L1_simps)
  have st: "staged E0 (call Vorbis_bitrate_flushpacket ?sk) [PF]"
    using staged_AF by simp
  have o: "stage_packet E0 (call Vorbis_bitrate_flushpacket ?sk) P1 = Stage_overflow"
    by (subst stage_packet_staged [OF layout_ok_E0 st packet_ok_P1])
      (simp add: staged_size_def payload_P1 E0_simps BUFFER_SIZE_def call_def AF_def)
  have f: "flush_packets E0 L1 ?sk = Some (Loop_return (- 1) (call Vorbis_bitrate_flushpacket ?sk))"
    using o by (subst flush_packets.simps) (simp add: Let_def ret_def call_def L1_simps AF_def)
  have r: "retrieve_packets E0 L1 ?s1
      = Some (Loop_return (- 1) (call Vorbis_bitrate_flushpacket ?sk))"
    using f by (subst retrieve_packets.simps) (simp add: Let_def ret_def call_def L1_simps AF_def)
  have "AF\<lparr>priv_data := call Vorbis_bitrate_flushpacket ?sk\<rparr> = AF'"
    by (simp add: AF_def AF'_def call_def)
  with s r show ?thesis
    by (simp add: oggvorbis_encode_frame_def)
qed

theorem staging_writes_bounded_witness:
  "layout_ok E0 \<and> lib_ok L1 \<and> lib_finite L1 pending0 \<and> staged E0 (priv_data AF) [PF] \<and>
   coded_frame AF \<noteq> None \<and>
   oggvorbis_encode_frame E0 L1 AF 16 None = Some (Return (- 1) (AF', [])) \<and>
   handed L1 AF AF' = [(fst P1, [10, 20, 30])] \<and>
   BUFFER_SIZE < queue_size E0 ([PF] @ handed L1 AF AF') \<and>
   frame_calls AF AF' = [Vorbis_bitrate_flushpacket, Vorbis_bitrate_addblock, Vorbis_analysis,
                         Vorbis_analysis_blockout, Vorbis_analysis_wrote [] 0] \<and>
   staged E0 (priv_data AF') ([PF] @ butlast (handed L1 AF AF')) \<and>
   int (length (buffer (priv_data AF'))) = BUFFER_SIZE \<and>
   (\<exists>s2. stage_packet E0 (priv_data A1) P1 = Staged s2 \<and> staged E0 s2 [(fst P1, payload P1)]) \<and>
   stage_packet E0 (priv_data AF) P1 = Stage_overflow"
proof -
  have fr: "coded_frame AF \<noteq> None" by (simp add: AF_def A1_def)
  note t = staging_writes_bounded [OF layout_ok_E0 lib_ok_L1 lib_finite_L1 staged_AF fr, of 16 None]
  have fc: "frame_calls AF AF' = [Vorbis_bitrate_flushpacket, Vorbis_bitrate_addblock,
      Vorbis_analysis, Vorbis_analysis_blockout, Vorbis_analysis_wrote [] 0]"
    by (simp add: frame_calls_def calls_since_def AF_def AF'_def)
  have v: "vorbis (priv_data AF) = []" by (simp add: AF_def)
  have hd: "handed L1 AF AF' = [(fst P1, [10, 20, 30])]"
    by (simp add: handed_def fc v L1_simps payload_P1)
  have big: "BUFFER_SIZE < queue_size E0 ([PF] @ handed L1 AF AF')"
    by (simp add: hd queue_size_def staged_size_def E0_simps BUFFER_SIZE_def PF_def)
  from t obtain r a' out where
    run: "oggvorbis_encode_frame E0 L1 AF 16 None = Some (Return r (a', out))"
    and len: "int (length (buffer (priv_data a'))) = BUFFER_SIZE"
    and c: "if BUFFER_SIZE < queue_size E0 ([PF] @ handed L1 AF a')
        then r = - 1 \<and> out = [] \<and> handed L1 AF a' \<noteq> [] \<and>
             (\<exists>new. frame_calls AF a' = Vorbis_bitrate_flushpacket # new) \<and>
             a' = AF\<lparr>priv_data := priv_data a'\<rparr> \<and>
             staged E0 (priv_data a') ([PF] @ butlast (handed L1 AF a'))
        else \<exists>s2. staged E0 s2 ([PF] @ handed L1 AF a') \<and>
               ((a' = AF\<lparr>priv_data := s2\<rparr> \<and> out = []) \<or>
                output_packet E0 (AF\<lparr>priv_data := s2\<rparr>) 16 = Return r (a', out))"
    by blast
  from run have a': "a' = AF'" by (simp add: encode_AF)
  from c big have q: "staged E0 (priv_data AF') ([PF] @ butlast (handed L1 AF AF'))"
    unfolding a' by simp
  note step = t [THEN conjunct2, rule_format]
  have "\<exists>s2. stage_packet E0 (priv_data A1) P1 = Staged s2 \<and>
      staged E0 s2 [(fst P1, payload P1)]"
    using step [of "priv_data A1" "[]" P1] staged_A1 [of E0] packet_ok_P1
    by (auto simp: BUFFER_SIZE_def E0_simps A1_def S0_def P1_def)
  moreover have "stage_packet E0 (priv_data AF) P1 = Stage_overflow"
    using step [OF conjI [OF staged_AF packet_ok_P1]]
    by (simp add: BUFFER_SIZE_def E0_simps P1_def AF_def)
  ultimately show ?thesis
    using layout_ok_E0 lib_ok_L1 lib_finite_L1 staged_AF fr encode_AF hd big fc q len [unfolded a']
    by blast
qed

subsection \<open>Packets leave oldest first\<close>

text \<open>A call at the end of the stream with the encoder \<open>L1\<close>, and the calls it
  made.\<close>

lemma encode_L1_calls:
  "\<exists>a'. oggvorbis_encode_frame E0 L1 A1 16 None = Some (Return 3 (a', [10, 20, 30])) \<and>
     vorbis (priv_data a')
       = [Vorbis_analysis_blockout, Vorbis_bitrate_flushpacket, Vorbis_bitrate_flushpacket,
          Vorbis_bitrate_addblock, Vorbis_analysis, Vorbis_analysis_blockout,
          Vorbis_analysis_wrote [] 0]"
proof -
  let ?s2 = "\<lparr>vorbis = [Vorbis_analysis_blockout, Vorbis_bitrate_flushpacket,
                  Vorbis_bitrate_flushpacket, Vorbis_bitrate_addblock, Vorbis_analysis,
                  Vorbis_analysis_blockout, Vorbis_analysis_wrote [] 0],
        buffer = lp64_put (fst P1) @ [10, 20, 30] @ replicate 65485 0, buffer_index = 51,
        eof = 1, dsp_initialized = 1, iblock = 0\<rparr>"
  have s: "send_samples E0 L1 A1 None
      = Inr \<lparr>vorbis = [Vorbis_analysis_wrote [] 0], buffer = replicate 65536 0,
             buffer_index = 0, eof = 1, dsp_initialized = 1, iblock = 0\<rparr>"
    by (simp add: send_samples_def A1_def A0_def S0_def Let_def call_def ret_def L1_simps)
  have e: "oggvorbis_encode_frame E0 L1 A1 16 None
      = Some (output_packet E0 (A1\<lparr>priv_data := ?s2\<rparr>) 16)"
    by (rule encode_frame_emits [OF s retrieve_L1]) simp
  have f: "coded_frame (A1\<lparr>priv_data := ?s2\<rparr>) = Some \<lparr>pts = 0\<rparr>"
    by (simp add: A1_def)
  have st: "staged E0 (priv_data (A1\<lparr>priv_data := ?s2\<rparr>)) [(fst P1, [10, 20, 30])]"
    using staged_one by simp
  from output_packet_staged [OF layout_ok_E0 st f, of 16]
  obtain a' where o: "output_packet E0 (A1\<lparr>priv_data := ?s2\<rparr>) 16 = Return 3 (a', [10, 20, 30])"
    by simp
  from output_packet_frame(1) [OF o] have "vorbis (priv_data a') = vorbis ?s2" by simp
  with e o show ?thesis by simp
qed

text \<open>
  C5. Packets leave one at a time, oldest first. A call on a buffer that holds a queue
  returns. When no call of libvorbis failed in it and the packets handed over fit behind
  those staged before, the queue is those staged before followed by those handed over,
  and: if it is empty (\<open>buffer_index = 0\<close>) the call returns 0 and writes nothing; if
  its oldest packet fits the caller's buffer, the call writes the payload of that packet
  and nothing else, returns its size, and the other packets stay staged in their order;
  if it does not fit, the call returns -1, writes nothing and the packets stay staged.
  In every other case the call writes nothing and no packet leaves the queue.
\<close>

theorem packets_leave_oldest_first:
  assumes lay: "layout_ok E" and lib: "lib_ok L" and fin: "lib_finite L pending"
    and st: "staged E (priv_data avctx) ps" and fr: "coded_frame avctx \<noteq> None"
  shows "\<exists>r a' out.
     oggvorbis_encode_frame E L avctx buf_size data = Some (Return r (a', out)) \<and>
     (if list_all (\<lambda>x. 0 \<le> x) (answers L avctx a') \<and>
         queue_size E (ps @ handed L avctx a') \<le> BUFFER_SIZE
      then (case ps @ handed L avctx a' of
              [] \<Rightarrow> r = 0 \<and> out = [] \<and> buffer_index (priv_data a') = 0 \<and>
                    staged E (priv_data a') []
            | hm # rest \<Rightarrow>
                if int (length (snd hm)) \<le> buf_size
                then r = int (length (snd hm)) \<and> out = snd hm \<and>
                     buffer_index (priv_data a') = queue_size E rest \<and>
                     staged E (priv_data a') rest
                else r = - 1 \<and> out = [] \<and> staged E (priv_data a') (repointed E hm # rest))
      else out = [] \<and>
           staged E (priv_data a')
             (ps @ (if BUFFER_SIZE < queue_size E (ps @ handed L avctx a')
                    then butlast (handed L avctx a') else handed L avctx a')))"
proof -
  from encode_frame_returns [OF lay lib fin st fr] obtain r a' out where
    run: "oggvorbis_encode_frame E L avctx buf_size data = Some (Return r (a', out))"
    by blast
  let ?q = "ps @ handed L avctx a'"
  let ?ok = "list_all (\<lambda>x. 0 \<le> x) (answers L avctx a') \<and> queue_size E ?q \<le> BUFFER_SIZE"
  from encode_frame_summary [OF lay lib st run]
  consider
    (failed) "\<not> list_all (\<lambda>x. 0 \<le> x) (answers L avctx a')" "out = []"
      "staged E (priv_data a') ?q"
    | (overflow) "BUFFER_SIZE < queue_size E ?q" "out = []"
        "staged E (priv_data a') (ps @ butlast (handed L avctx a'))"
    | (emitted) s2 where "list_all (\<lambda>x. 0 \<le> x) (answers L avctx a')" "staged E s2 ?q"
        "output_packet E (avctx\<lparr>priv_data := s2\<rparr>) buf_size = Return r (a', out)"
    by fastforce
  then have "if ?ok
      then (case ?q of
              [] \<Rightarrow> r = 0 \<and> out = [] \<and> buffer_index (priv_data a') = 0 \<and>
                    staged E (priv_data a') []
            | hm # rest \<Rightarrow>
                if int (length (snd hm)) \<le> buf_size
                then r = int (length (snd hm)) \<and> out = snd hm \<and>
                     buffer_index (priv_data a') = queue_size E rest \<and>
                     staged E (priv_data a') rest
                else r = - 1 \<and> out = [] \<and> staged E (priv_data a') (repointed E hm # rest))
      else out = [] \<and>
           staged E (priv_data a')
             (ps @ (if BUFFER_SIZE < queue_size E ?q
                    then butlast (handed L avctx a') else handed L avctx a'))"
  proof cases
    case failed
    from queue_size_staged(2) [OF lay failed(3)] failed show ?thesis by simp
  next
    case overflow
    then show ?thesis by simp
  next
    case (emitted s2)
    have ok: ?ok
      using emitted(1) queue_size_staged(2) [OF lay emitted(2)] by simp
    have q: "staged E (priv_data (avctx\<lparr>priv_data := s2\<rparr>)) ?q"
      using emitted(2) by simp
    have f: "coded_frame (avctx\<lparr>priv_data := s2\<rparr>) \<noteq> None"
      using fr by simp
    from output_packet_queue [OF lay q f, of buf_size] emitted(3)
    have c: "(?q = [] \<and> r = 0 \<and> out = [] \<and> a' = avctx\<lparr>priv_data := s2\<rparr>) \<or>
      (\<exists>hm rest. ?q = hm # rest \<and> buf_size < int (length (snd hm)) \<and> r = - 1 \<and> out = [] \<and>
         staged E (priv_data a') (repointed E hm # rest)) \<or>
      (\<exists>hm rest. ?q = hm # rest \<and> int (length (snd hm)) \<le> buf_size \<and>
         r = int (length (snd hm)) \<and> out = snd hm \<and> staged E (priv_data a') rest)"
      by auto
    have "case ?q of
              [] \<Rightarrow> r = 0 \<and> out = [] \<and> buffer_index (priv_data a') = 0 \<and>
                    staged E (priv_data a') []
            | hm # rest \<Rightarrow>
                if int (length (snd hm)) \<le> buf_size
                then r = int (length (snd hm)) \<and> out = snd hm \<and>
                     buffer_index (priv_data a') = queue_size E rest \<and>
                     staged E (priv_data a') rest
                else r = - 1 \<and> out = [] \<and> staged E (priv_data a') (repointed E hm # rest)"
    proof (cases ?q)
      case Nil
      with c have a': "a' = avctx\<lparr>priv_data := s2\<rparr>" and r: "r = 0" "out = []" by auto
      from emitted(2) have "staged E s2 []"
        by (simp only: Nil)
      then have e: "staged E (priv_data a') []"
        by (simp add: a')
      with staged_empty_iff [OF lay e] r show ?thesis
        by (simp add: Nil)
    next
      case (Cons hm rest)
      show ?thesis
      proof (cases "int (length (snd hm)) \<le> buf_size")
        case True
        with c Cons have "r = int (length (snd hm))" "out = snd hm"
          and s: "staged E (priv_data a') rest"
          by auto
        with queue_size_staged(1) [OF lay s] True show ?thesis
          by (simp add: Cons)
      next
        case False
        with c Cons show ?thesis by auto
      qed
    qed
    with ok show ?thesis by simp
  qed
  with run show ?thesis by blast
qed

theorem packets_leave_oldest_first_witness:
  "\<exists>a'. layout_ok E0 \<and> lib_ok L1 \<and> lib_finite L1 pending0 \<and> staged E0 (priv_data A1) [] \<and>
     coded_frame A1 \<noteq> None \<and>
     oggvorbis_encode_frame E0 L1 A1 16 None = Some (Return 3 (a', [10, 20, 30])) \<and>
     list_all (\<lambda>x. 0 \<le> x) (answers L1 A1 a') \<and>
     handed L1 A1 a' = [(fst P1, [10, 20, 30])] \<and>
     queue_size E0 ([] @ handed L1 A1 a') \<le> BUFFER_SIZE \<and>
     buffer_index (priv_data a') = 0 \<and> staged E0 (priv_data a') []"
proof -
  from encode_L1_calls obtain a' where
    run: "oggvorbis_encode_frame E0 L1 A1 16 None = Some (Return 3 (a', [10, 20, 30]))"
    and v: "vorbis (priv_data a')
       = [Vorbis_analysis_blockout, Vorbis_bitrate_flushpacket, Vorbis_bitrate_flushpacket,
          Vorbis_bitrate_addblock, Vorbis_analysis, Vorbis_analysis_blockout,
          Vorbis_analysis_wrote [] 0]"
    by blast
  have fr: "coded_frame A1 \<noteq> None" by (simp add: A1_def)
  have h: "vorbis (priv_data A1) = []" by (simp add: A1_def S0_def)
  have fc: "frame_calls A1 a'
      = [Vorbis_analysis_blockout, Vorbis_bitrate_flushpacket, Vorbis_bitrate_flushpacket,
          Vorbis_bitrate_addblock, Vorbis_analysis, Vorbis_analysis_blockout,
          Vorbis_analysis_wrote [] 0]"
    by (simp add: frame_calls_def calls_since_def h v)
  have an: "list_all (\<lambda>x. 0 \<le> x) (answers L1 A1 a')"
    by (simp add: answers_def fc h L1_simps)
  have hd: "handed L1 A1 a' = [(fst P1, [10, 20, 30])]"
    by (simp add: handed_def fc h L1_simps payload_P1)
  have sz: "queue_size E0 ([] @ handed L1 A1 a') \<le> BUFFER_SIZE"
    by (simp add: hd queue_size_def staged_size_def E0_simps BUFFER_SIZE_def)
  from packets_leave_oldest_first
    [OF layout_ok_E0 lib_ok_L1 lib_finite_L1 staged_A1 fr, of 16 None] run an sz
  have "buffer_index (priv_data a') = 0 \<and> staged E0 (priv_data a') []"
    by (auto simp: hd queue_size_def)
  with run an hd sz layout_ok_E0 lib_ok_L1 lib_finite_L1 staged_A1 [of E0] fr show ?thesis
    by blast
qed

subsection \<open>An output buffer that is too small\<close>

lemma staged_prefix:
  assumes st: "staged E s (q @ q')"
  shows "take (length (concat (map (wire E) q))) (buffer s) = concat (map (wire E) q)"
proof -
  let ?n = "length (concat (map (wire E) q))"
  let ?bi = "nat (buffer_index s)"
  from st have tk: "take ?bi (buffer s) = concat (map (wire E) q) @ concat (map (wire E) q')"
    by (simp add: staged_def)
  then have "length (take ?bi (buffer s)) = ?n + length (concat (map (wire E) q'))"
    by simp
  then have le: "?n \<le> ?bi" by simp
  then have "take ?n (buffer s) = take ?n (take ?bi (buffer s))"
    by (simp add: min_def)
  also have "\<dots> = concat (map (wire E) q)"
    unfolding tk by simp
  finally show ?thesis .
qed

lemma staged_take_index:
  assumes st: "staged E s q"
  shows "nat (buffer_index s) = length (concat (map (wire E) q))"
proof -
  from st have "length (take (nat (buffer_index s)) (buffer s)) = length (concat (map (wire E) q))"
    by (simp add: staged_def)
  moreover have "length (take (nat (buffer_index s)) (buffer s)) = nat (buffer_index s)"
    using staged_length [OF st] staged_index [OF st] by (auto simp: min_def)
  ultimately show ?thesis by simp
qed

lemma queue_size_nonneg: "0 \<le> queue_size E q"
  by (induction q) (simp_all add: queue_size_def staged_size_def)

text \<open>The bytes that were staged when a call began, behind the oldest header, are
  those the buffer holds when the oldest header has its pointer rewritten and packets
  have been queued behind.\<close>

lemma staged_bytes_kept:
  assumes lay: "layout_ok E" and st: "staged E s ps"
    and st': "staged E s' (repointed E hm # rest)" and q: "ps @ new = hm # rest"
  shows "drop (sizeof_ogg_packet E) (take (nat (buffer_index s)) (buffer s'))
     = drop (sizeof_ogg_packet E) (take (nat (buffer_index s)) (buffer s))"
proof (cases ps)
  case Nil
  with staged_empty_iff [OF lay st] show ?thesis by simp
next
  case (Cons hm' ps')
  with q have hm: "hm' = hm" and rest: "rest = ps' @ new" by simp_all
  let ?W = "concat (map (wire E) ps')"
  have l: "length (put_ogg_packet E (fst (repointed E hm))) = sizeof_ogg_packet E"
    "length (put_ogg_packet E (fst hm)) = sizeof_ogg_packet E"
    using lay by (simp_all add: layout_ok_def)
  have len: "length (wire E (repointed E hm)) = length (wire E hm)"
    by (simp add: wire_def l) (simp add: repointed_def)
  have bi: "nat (buffer_index s) = length (concat (map (wire E) (repointed E hm # ps')))"
    using staged_take_index [OF st] by (simp add: Cons hm len)
  have "staged E s' ((repointed E hm # ps') @ new)"
    using st' by (simp add: rest)
  from staged_prefix [OF this]
  have "take (nat (buffer_index s)) (buffer s') = concat (map (wire E) (repointed E hm # ps'))"
    unfolding bi .
  moreover from st have "take (nat (buffer_index s)) (buffer s) = concat (map (wire E) (hm # ps'))"
    by (simp add: staged_def Cons hm)
  ultimately show ?thesis
    by (simp add: wire_def l) (simp add: repointed_def)
qed

text \<open>
  C8, as the code has it. A call on a buffer that holds a queue returns. When no call of
  libvorbis failed in it, the packets handed over fit behind those staged before, and
  the oldest packet of the queue (those staged before, then those handed over) is larger
  than the caller's buffer, the call returns -1 and writes nothing to the caller. The
  same packets are staged in the same order, the oldest header now with its \<open>packet\<close>
  pointer set to \<open>s->buffer + sizeof(ogg_packet)\<close>; \<open>buffer_index\<close> is what it was plus
  the bytes of the packets queued in this call; the bytes that were staged before,
  behind the oldest header, are unchanged; and \<open>coded_frame->pts\<close> holds the timestamp
  of the oldest packet. Here \<open>s2\<close> is the context when the last part of the call begins.
\<close>

theorem undersized_output_keeps_packet:
  assumes lay: "layout_ok E" and lib: "lib_ok L" and fin: "lib_finite L pending"
    and st: "staged E (priv_data avctx) ps" and fr: "coded_frame avctx = Some f"
  shows "\<exists>r a' out.
     oggvorbis_encode_frame E L avctx buf_size data = Some (Return r (a', out)) \<and>
     (\<forall>hm rest.
        list_all (\<lambda>x. 0 \<le> x) (answers L avctx a') \<and>
        queue_size E (ps @ handed L avctx a') \<le> BUFFER_SIZE \<and>
        ps @ handed L avctx a' = hm # rest \<and> buf_size < int (length (snd hm)) \<longrightarrow>
        r = - 1 \<and> out = [] \<and>
        staged E (priv_data a') (repointed E hm # rest) \<and>
        buffer_index (priv_data a')
          = buffer_index (priv_data avctx) + queue_size E (handed L avctx a') \<and>
        drop (sizeof_ogg_packet E)
            (take (nat (buffer_index (priv_data avctx))) (buffer (priv_data a')))
          = drop (sizeof_ogg_packet E)
              (take (nat (buffer_index (priv_data avctx))) (buffer (priv_data avctx))) \<and>
        (\<exists>s2. staged E s2 (hm # rest) \<and>
           a' = avctx\<lparr>coded_frame :=
                        Some (f\<lparr>pts := ff_samples_to_time_base E (avctx\<lparr>priv_data := s2\<rparr>)
                                        (granulepos (fst hm))\<rparr>),
                      priv_data :=
                        s2\<lparr>buffer := put_ogg_packet E (fst (repointed E hm))
                                      @ drop (sizeof_ogg_packet E) (buffer s2)\<rparr>\<rparr>))"
proof -
  have fr': "coded_frame avctx \<noteq> None" using fr by simp
  from encode_frame_returns [OF lay lib fin st fr'] obtain r a' out where
    run: "oggvorbis_encode_frame E L avctx buf_size data = Some (Return r (a', out))"
    by blast
  let ?q = "ps @ handed L avctx a'"
  have "r = - 1 \<and> out = [] \<and>
        staged E (priv_data a') (repointed E hm # rest) \<and>
        buffer_index (priv_data a')
          = buffer_index (priv_data avctx) + queue_size E (handed L avctx a') \<and>
        drop (sizeof_ogg_packet E)
            (take (nat (buffer_index (priv_data avctx))) (buffer (priv_data a')))
          = drop (sizeof_ogg_packet E)
              (take (nat (buffer_index (priv_data avctx))) (buffer (priv_data avctx))) \<and>
        (\<exists>s2. staged E s2 (hm # rest) \<and>
           a' = avctx\<lparr>coded_frame :=
                        Some (f\<lparr>pts := ff_samples_to_time_base E (avctx\<lparr>priv_data := s2\<rparr>)
                                        (granulepos (fst hm))\<rparr>),
                      priv_data :=
                        s2\<lparr>buffer := put_ogg_packet E (fst (repointed E hm))
                                      @ drop (sizeof_ogg_packet E) (buffer s2)\<rparr>\<rparr>)"
    if h: "list_all (\<lambda>x. 0 \<le> x) (answers L avctx a') \<and>
        queue_size E ?q \<le> BUFFER_SIZE \<and> ?q = hm # rest \<and> buf_size < int (length (snd hm))"
    for hm rest
  proof -
    from h have an: "list_all (\<lambda>x. 0 \<le> x) (answers L avctx a')"
      and fit: "queue_size E ?q \<le> BUFFER_SIZE" and q: "?q = hm # rest"
      and big: "buf_size < int (length (snd hm))"
      by blast+
    from encode_frame_summary [OF lay lib st run] an fit
    obtain s2 where s2: "staged E s2 ?q"
      and o: "output_packet E (avctx\<lparr>priv_data := s2\<rparr>) buf_size = Return r (a', out)"
      by auto
    let ?a = "avctx\<lparr>priv_data := s2\<rparr>"
    have sa: "staged E (priv_data ?a) (hm # rest)" using s2 q by simp
    have fa: "coded_frame ?a = Some f" using fr by simp
    from output_packet_staged [OF lay sa fa, of buf_size] big o
    have r: "r = - 1" and out: "out = []"
      and a': "a' = avctx\<lparr>coded_frame :=
                        Some (f\<lparr>pts := ff_samples_to_time_base E ?a (granulepos (fst hm))\<rparr>),
                      priv_data :=
                        s2\<lparr>buffer := put_ogg_packet E (fst (repointed E hm))
                                      @ drop (sizeof_ogg_packet E) (buffer s2)\<rparr>\<rparr>"
      by simp_all
    from staged_repointed [OF lay sa]
    have rp: "staged E (priv_data a') (repointed E hm # rest)"
      by (subst a') simp
    have "buffer_index (priv_data a') = buffer_index s2"
      by (subst a') simp
    also have "\<dots> = queue_size E ?q"
      using queue_size_staged(1) [OF lay s2] by simp
    also have "\<dots> = buffer_index (priv_data avctx) + queue_size E (handed L avctx a')"
      using queue_size_staged(1) [OF lay st] by (simp add: queue_size_append)
    finally have idx: "buffer_index (priv_data a')
        = buffer_index (priv_data avctx) + queue_size E (handed L avctx a')" .
    note kept = staged_bytes_kept [OF lay st rp q]
    from s2 q have "staged E s2 (hm # rest)" by simp
    with r out rp idx kept a' show ?thesis by blast
  qed
  with run show ?thesis by blast
qed

lemma lib_ok_L2: "lib_ok L2"
  by (simp add: lib_ok_def L2_def packet_ok_def P1_def)

lemma encode_AY: "oggvorbis_encode_frame E0 L2 AY 2 None = Some (Return (- 1) (AY', []))"
proof -
  have s2: "send_samples E0 L2 AY None = Inr (priv_data AY)"
    by (simp add: send_samples_def AY_def)
  have "oggvorbis_encode_frame E0 L2 AY 2 None
      = Some (output_packet E0 (AY\<lparr>priv_data := call Vorbis_analysis_blockout (priv_data AY)\<rparr>) 2)"
    by (rule encode_frame_emits [OF s2 retrieve_L2_second]) simp
  then show ?thesis
    by (simp add: output_AY)
qed

theorem undersized_output_keeps_packet_witness:
  "layout_ok E0 \<and> lib_ok L2 \<and> lib_finite L2 pending0 \<and>
   staged E0 (priv_data AY) [(fst P1, [10, 20, 30])] \<and> coded_frame AY = Some \<lparr>pts = 0\<rparr> \<and>
   oggvorbis_encode_frame E0 L2 AY 2 None = Some (Return (- 1) (AY', [])) \<and>
   list_all (\<lambda>x. 0 \<le> x) (answers L2 AY AY') \<and> handed L2 AY AY' = [] \<and>
   queue_size E0 ([(fst P1, [10, 20, 30])] @ handed L2 AY AY') \<le> BUFFER_SIZE \<and>
   (2 :: int) < int (length (snd (fst P1, [10, 20, 30 :: byte]))) \<and>
   staged E0 (priv_data AY') [repointed E0 (fst P1, [10, 20, 30])] \<and>
   buffer_index (priv_data AY') = buffer_index (priv_data AY) \<and>
   drop 48 (take 51 (buffer (priv_data AY'))) = drop 48 (take 51 (buffer (priv_data AY))) \<and>
   coded_frame AY' = Some \<lparr>pts = 64\<rparr>"
proof -
  have f: "coded_frame AY = Some \<lparr>pts = 0\<rparr>" by (simp add: AY_def A1_def)
  have big: "(2 :: int) < int (length (snd (fst P1, [10, 20, 30 :: byte])))" by simp
  have fc: "frame_calls AY AY' = [Vorbis_analysis_blockout]"
    by (simp add: frame_calls_def calls_since_def AY_def AY'_def)
  have v: "vorbis (priv_data AY)
      = [Vorbis_bitrate_flushpacket, Vorbis_bitrate_flushpacket, Vorbis_bitrate_addblock,
         Vorbis_analysis, Vorbis_analysis_blockout, Vorbis_analysis_wrote [] 0]"
    by (simp add: AY_def)
  have an: "list_all (\<lambda>x. 0 \<le> x) (answers L2 AY AY')"
    by (simp add: answers_def fc v L2_simps)
  have hd: "handed L2 AY AY' = []"
    by (simp add: handed_def fc)
  have sz: "queue_size E0 ([(fst P1, [10, 20, 30])] @ handed L2 AY AY') \<le> BUFFER_SIZE"
    by (simp add: hd queue_size_def staged_size_def E0_simps BUFFER_SIZE_def)
  have idx: "buffer_index (priv_data AY) = 51" by (simp add: AY_def)
  from undersized_output_keeps_packet
    [OF layout_ok_E0 lib_ok_L2 lib_finite_L2 staged_AY f, of 2 None]
  obtain r a' out where run: "oggvorbis_encode_frame E0 L2 AY 2 None = Some (Return r (a', out))"
    and c: "\<And>hm rest. list_all (\<lambda>x. 0 \<le> x) (answers L2 AY a') \<and>
        queue_size E0 ([(fst P1, [10, 20, 30])] @ handed L2 AY a') \<le> BUFFER_SIZE \<and>
        [(fst P1, [10, 20, 30])] @ handed L2 AY a' = hm # rest \<and>
        2 < int (length (snd hm)) \<Longrightarrow>
        staged E0 (priv_data a') (repointed E0 hm # rest) \<and>
        buffer_index (priv_data a') = buffer_index (priv_data AY) + queue_size E0 (handed L2 AY a') \<and>
        drop (sizeof_ogg_packet E0) (take (nat (buffer_index (priv_data AY))) (buffer (priv_data a')))
          = drop (sizeof_ogg_packet E0)
              (take (nat (buffer_index (priv_data AY))) (buffer (priv_data AY)))"
    by blast
  from run have a': "a' = AY'" by (simp add: encode_AY)
  from c [of "(fst P1, [10, 20, 30])" "[]"] an sz
  have "staged E0 (priv_data AY') [repointed E0 (fst P1, [10, 20, 30])] \<and>
     buffer_index (priv_data AY') = buffer_index (priv_data AY) \<and>
     drop 48 (take 51 (buffer (priv_data AY'))) = drop 48 (take 51 (buffer (priv_data AY)))"
    unfolding a' by (simp add: hd queue_size_def idx E0_simps)
  moreover have "coded_frame AY' = Some \<lparr>pts = 64\<rparr>"
    by (simp add: AY'_def A1_def)
  ultimately show ?thesis
    using layout_ok_E0 lib_ok_L2 lib_finite_L2 staged_AY f encode_AY an hd sz big by blast
qed

subsection \<open>The end of the stream\<close>

lemma lib_ok_L3: "lib_ok L3"
  by (simp add: lib_ok_def L3_def)

lemma lib_finite_L3: "lib_finite L3 pending0"
  by (auto simp: lib_finite_def pending0_def L3_def)

text \<open>
  C9, as the code has it. A call without data made while \<open>eof\<close> is clear calls
  \<open>vorbis_analysis_wrote(&s->vd, 0)\<close> once, before anything else. When that call
  fails, the call returns the mapped error at once, having made no other call, and
  \<open>eof\<close> is still clear. When it does not fail, the call returns, has made after it
  only calls of the retrieval loops, none of which is \<open>vorbis_analysis_wrote\<close>, and
  \<open>eof\<close> is 1. A call without data made while \<open>eof\<close> is set returns, has made only
  calls of the retrieval loops, and leaves \<open>eof\<close> at 1; and no call, with data or
  without, clears \<open>eof\<close>. \<open>oggvorbis_encode_close\<close> makes its own zero-length write
  exactly when \<open>dsp_initialized\<close> is set.
\<close>

theorem end_of_stream_signalled:
  assumes lay: "layout_ok E" and lib: "lib_ok L" and fin: "lib_finite L pending"
    and st: "staged E (priv_data avctx) ps" and fr: "coded_frame avctx \<noteq> None"
  shows "(eof (priv_data avctx) = 0 \<and>
        lib_ret L (Vorbis_analysis_wrote [] 0 # vorbis (priv_data avctx)) < 0 \<longrightarrow>
       oggvorbis_encode_frame E L avctx buf_size None
         = Some (Return
             (vorbis_error_to_averror E
                (lib_ret L (Vorbis_analysis_wrote [] 0 # vorbis (priv_data avctx))))
             (avctx\<lparr>priv_data := call (Vorbis_analysis_wrote [] 0) (priv_data avctx)\<rparr>, []))) \<and>
    (eof (priv_data avctx) = 0 \<and>
        0 \<le> lib_ret L (Vorbis_analysis_wrote [] 0 # vorbis (priv_data avctx)) \<longrightarrow>
       (\<exists>r a' out new.
          oggvorbis_encode_frame E L avctx buf_size None = Some (Return r (a', out)) \<and>
          vorbis (priv_data a') = new @ Vorbis_analysis_wrote [] 0 # vorbis (priv_data avctx) \<and>
          set new \<subseteq> loop_calls \<and> eof (priv_data a') = 1)) \<and>
    (eof (priv_data avctx) \<noteq> 0 \<longrightarrow>
       (\<exists>r a' out new.
          oggvorbis_encode_frame E L avctx buf_size None = Some (Return r (a', out)) \<and>
          vorbis (priv_data a') = new @ vorbis (priv_data avctx) \<and>
          set new \<subseteq> loop_calls \<and> eof (priv_data a') = 1)) \<and>
    (eof (priv_data avctx) \<noteq> 0 \<longrightarrow>
       (\<exists>r a' out.
          oggvorbis_encode_frame E L avctx buf_size data = Some (Return r (a', out)) \<and>
          eof (priv_data a') \<noteq> 0)) \<and>
    (\<forall>pcm n. Vorbis_analysis_wrote pcm n \<notin> loop_calls) \<and>
    (\<forall>a. vorbis (priv_data (snd (oggvorbis_encode_close a)))
       = [Vorbis_info_clear, Vorbis_dsp_clear, Vorbis_block_clear]
         @ (if dsp_initialized (priv_data a) \<noteq> 0 then [Vorbis_analysis_wrote [] 0] else [])
         @ vorbis (priv_data a))"
proof (intro conjI allI impI)
  assume "eof (priv_data avctx) = 0 \<and>
        lib_ret L (Vorbis_analysis_wrote [] 0 # vorbis (priv_data avctx)) < 0"
  then show "oggvorbis_encode_frame E L avctx buf_size None
         = Some (Return
             (vorbis_error_to_averror E
                (lib_ret L (Vorbis_analysis_wrote [] 0 # vorbis (priv_data avctx))))
             (avctx\<lparr>priv_data := call (Vorbis_analysis_wrote [] 0) (priv_data avctx)\<rparr>, []))"
    by (simp add: oggvorbis_encode_frame_def send_samples_def Let_def ret_def call_def)
next
  assume a: "eof (priv_data avctx) = 0 \<and>
        0 \<le> lib_ret L (Vorbis_analysis_wrote [] 0 # vorbis (priv_data avctx))"
  then have sc: "send_calls E L avctx None = [Vorbis_analysis_wrote [] 0]"
    by (simp add: send_calls_def)
  from encode_frame_returns [OF lay lib fin st fr] obtain r a' out where
    run: "oggvorbis_encode_frame E L avctx buf_size None = Some (Return r (a', out))"
    by blast
  from encode_frame_trace [OF run, unfolded sc] a
  have "\<exists>new. vorbis (priv_data a') = new @ Vorbis_analysis_wrote [] 0 # vorbis (priv_data avctx) \<and>
          set new \<subseteq> loop_calls \<and> eof (priv_data a') = 1"
    by (auto split: if_splits)
  with run show "\<exists>r a' out new.
          oggvorbis_encode_frame E L avctx buf_size None = Some (Return r (a', out)) \<and>
          vorbis (priv_data a') = new @ Vorbis_analysis_wrote [] 0 # vorbis (priv_data avctx) \<and>
          set new \<subseteq> loop_calls \<and> eof (priv_data a') = 1"
    by blast
next
  assume e: "eof (priv_data avctx) \<noteq> 0"
  then have sc: "send_calls E L avctx None = []"
    by (simp add: send_calls_def)
  from encode_frame_returns [OF lay lib fin st fr] obtain r a' out where
    run: "oggvorbis_encode_frame E L avctx buf_size None = Some (Return r (a', out))"
    by blast
  from encode_frame_trace [OF run, unfolded sc]
  have "\<exists>new. vorbis (priv_data a') = new @ vorbis (priv_data avctx) \<and>
          set new \<subseteq> loop_calls \<and> eof (priv_data a') = 1"
    by auto
  with run show "\<exists>r a' out new.
          oggvorbis_encode_frame E L avctx buf_size None = Some (Return r (a', out)) \<and>
          vorbis (priv_data a') = new @ vorbis (priv_data avctx) \<and>
          set new \<subseteq> loop_calls \<and> eof (priv_data a') = 1"
    by blast
next
  assume e: "eof (priv_data avctx) \<noteq> 0"
  from encode_frame_returns [OF lay lib fin st fr] obtain r a' out where
    run: "oggvorbis_encode_frame E L avctx buf_size data = Some (Return r (a', out))"
    by blast
  from encode_frame_trace [OF run] e have "eof (priv_data a') \<noteq> 0"
    by (auto split: if_splits)
  with run show "\<exists>r a' out.
          oggvorbis_encode_frame E L avctx buf_size data = Some (Return r (a', out)) \<and>
          eof (priv_data a') \<noteq> 0"
    by blast
next
  fix pcm n
  show "Vorbis_analysis_wrote pcm n \<notin> loop_calls"
    by (simp add: loop_calls_def)
next
  fix a
  show "vorbis (priv_data (snd (oggvorbis_encode_close a)))
       = [Vorbis_info_clear, Vorbis_dsp_clear, Vorbis_block_clear]
         @ (if dsp_initialized (priv_data a) \<noteq> 0 then [Vorbis_analysis_wrote [] 0] else [])
         @ vorbis (priv_data a)"
    by (rule close_calls)
qed

theorem end_of_stream_signalled_witness:
  "layout_ok E0 \<and> lib_ok L1 \<and> lib_finite L1 pending0 \<and> staged E0 (priv_data A1) [] \<and>
   coded_frame A1 \<noteq> None \<and> eof (priv_data A1) = 0 \<and>
   0 \<le> lib_ret L1 (Vorbis_analysis_wrote [] 0 # vorbis (priv_data A1)) \<and>
   (\<exists>r a' out new.
      oggvorbis_encode_frame E0 L1 A1 16 None = Some (Return r (a', out)) \<and>
      vorbis (priv_data a') = new @ [Vorbis_analysis_wrote [] 0] \<and>
      set new \<subseteq> loop_calls \<and> eof (priv_data a') = 1) \<and>
   lib_ok L3 \<and> lib_finite L3 pending0 \<and>
   lib_ret L3 (Vorbis_analysis_wrote [] 0 # vorbis (priv_data A1)) < 0 \<and>
   oggvorbis_encode_frame E0 L3 A1 16 None = Some (Return (AVERROR_UNKNOWN E0) (AZ, [])) \<and>
   eof (priv_data AZ) = 0 \<and>
   lib_ok L2 \<and> lib_finite L2 pending0 \<and> staged E0 (priv_data AY) [(fst P1, [10, 20, 30])] \<and>
   coded_frame AY \<noteq> None \<and> eof (priv_data AY) \<noteq> 0 \<and>
   (\<exists>r a' out new.
      oggvorbis_encode_frame E0 L2 AY 2 None = Some (Return r (a', out)) \<and>
      vorbis (priv_data a') = new @ vorbis (priv_data AY) \<and>
      set new \<subseteq> loop_calls \<and> eof (priv_data a') = 1)"
proof -
  have fr: "coded_frame A1 \<noteq> None" by (simp add: A1_def)
  have e: "eof (priv_data A1) = 0" "vorbis (priv_data A1) = []"
    by (simp_all add: A1_def S0_def)
  have p: "0 \<le> lib_ret L1 (Vorbis_analysis_wrote [] 0 # vorbis (priv_data A1))"
    by (simp add: e L1_simps)
  from end_of_stream_signalled
    [OF layout_ok_E0 lib_ok_L1 lib_finite_L1 staged_A1 fr, of 16 None] e(1) p
  have one: "\<exists>r a' out new.
      oggvorbis_encode_frame E0 L1 A1 16 None = Some (Return r (a', out)) \<and>
      vorbis (priv_data a') = new @ [Vorbis_analysis_wrote [] 0] \<and>
      set new \<subseteq> loop_calls \<and> eof (priv_data a') = 1"
    by (simp add: e(2))
  have n: "lib_ret L3 (Vorbis_analysis_wrote [] 0 # vorbis (priv_data A1)) < 0"
    by (simp add: L3_def)
  have m: "vorbis_error_to_averror E0 (- 1) = AVERROR_UNKNOWN E0"
    by (simp add: vorbis_error_to_averror_def E0_def)
  have z: "A1\<lparr>priv_data := call (Vorbis_analysis_wrote [] 0) (priv_data A1)\<rparr> = AZ"
    by (simp add: A1_def AZ_def S0_def call_def)
  have l3: "lib_ret L3 (Vorbis_analysis_wrote [] 0 # vorbis (priv_data A1)) = - 1"
    by (simp add: L3_def)
  from end_of_stream_signalled
    [OF layout_ok_E0 lib_ok_L3 lib_finite_L3 staged_A1 fr, of 16 None] e(1) n
  have two: "oggvorbis_encode_frame E0 L3 A1 16 None = Some (Return (AVERROR_UNKNOWN E0) (AZ, []))"
    by (simp add: l3 m z)
  have ez: "eof (priv_data AZ) = 0" by (simp add: AZ_def S0_def)
  have fy: "coded_frame AY \<noteq> None" by (simp add: AY_def A1_def)
  have ey: "eof (priv_data AY) \<noteq> 0" by (simp add: AY_def)
  from end_of_stream_signalled
    [OF layout_ok_E0 lib_ok_L2 lib_finite_L2 staged_AY fy, of 2 None] ey
  have three: "\<exists>r a' out new.
      oggvorbis_encode_frame E0 L2 AY 2 None = Some (Return r (a', out)) \<and>
      vorbis (priv_data a') = new @ vorbis (priv_data AY) \<and>
      set new \<subseteq> loop_calls \<and> eof (priv_data a') = 1"
    by simp
  from one two three show ?thesis
    using layout_ok_E0 lib_ok_L1 lib_finite_L1 staged_A1 [of E0] fr e(1) p lib_ok_L3 lib_finite_L3 n
      ez lib_ok_L2 lib_finite_L2 staged_AY fy ey
    by blast
qed

subsection \<open>The calls of oggvorbis_encode_init\<close>

lemma averror_nonzero: "averror_ok E \<Longrightarrow> vorbis_error_to_averror E x \<noteq> 0"
  by (auto simp: averror_ok_def vorbis_error_to_averror_def)

lemma vcall_fields:
  "vorbis (priv_data (vcall c a)) = c # vorbis (priv_data a)"
  "dsp_initialized (priv_data (vcall c a)) = dsp_initialized (priv_data a)"
  "extradata (vcall c a) = extradata a" "extradata_size (vcall c a) = extradata_size a"
  "coded_frame (vcall c a) = coded_frame a" "frame_size (vcall c a) = frame_size a"
  by (simp_all add: vcall_def call_def)

lemma vret_eq: "vret L a = lib_ret L (vorbis (priv_data a))"
  by (simp add: vret_def ret_def)

text \<open>The first part of \<open>oggvorbis_encode_init\<close>, with its contexts named.\<close>

lemma init_calls_eq:
  fixes E L a
  defines "ra \<equiv> oggvorbis_init_encoder E L (vcall Vorbis_info_init a)"
  defines "a2 \<equiv> vcall Vorbis_analysis_init (snd ra)"
  defines "a4 \<equiv> vcall Vorbis_block_init (a2\<lparr>priv_data := (priv_data a2)\<lparr>dsp_initialized := 1\<rparr>\<rparr>)"
  defines "a7 \<equiv> vcall Vorbis_analysis_headerout
        (vcall (Vorbis_comment_add_tag ''encoder'' (LIBAVCODEC_IDENT E))
           (vcall Vorbis_comment_init a4))"
  shows "init_calls E L a =
     (if fst ra \<noteq> 0 then Inl ra
      else if vret L a2 \<noteq> 0 then Inl (vorbis_error_to_averror E (vret L a2), a2)
      else if vret L a4 \<noteq> 0 then Inl (vorbis_error_to_averror E (vret L a4), a4)
      else if vret L a7 \<noteq> 0 then Inl (vorbis_error_to_averror E (vret L a7), a7)
      else Inr a7)"
  unfolding init_calls_def Let_def a7_def a4_def a2_def ra_def by (rule refl)

text \<open>The calls of \<open>oggvorbis_init_encoder\<close> and what they returned: all of them 0
  and the result is 0, or the last of them another value, which the result maps.\<close>

lemma init_encoder_calls:
  fixes E L a
  assumes av: "averror_ok E"
  defines "res \<equiv> oggvorbis_init_encoder E L a"
  shows "\<exists>new. snd res = a\<lparr>priv_data := (priv_data a)\<lparr>vorbis := new @ vorbis (priv_data a)\<rparr>\<rparr> \<and>
     (if fst res = 0 then list_all (\<lambda>x. x = 0) (returns L new (vorbis (priv_data a)))
      else \<exists>x zs. returns L new (vorbis (priv_data a)) = x # zs \<and> x \<noteq> 0 \<and>
             list_all (\<lambda>x. x = 0) zs \<and> fst res = vorbis_error_to_averror E x)"
proof -
  from init_encoder_traced [of L a E] obtain later ra where
    t: "traced L a (later @ [rate_call E a]) ra"
    and r: "oggvorbis_init_encoder E L a
       = (if fst ra \<noteq> 0 then vorbis_error_to_averror E (fst ra) else 0, snd ra)"
    by blast
  let ?new = "later @ [rate_call E a]"
  let ?h = "vorbis (priv_data a)"
  from t have s: "snd ra = a\<lparr>priv_data := (priv_data a)\<lparr>vorbis := ?new @ ?h\<rparr>\<rparr>"
    unfolding traced_def by (elim conjE)
  from t have c: "(fst ra = 0 \<and> list_all (\<lambda>x. x = 0) (returns L ?new ?h)) \<or>
      (\<exists>zs. returns L ?new ?h = fst ra # zs \<and> list_all (\<lambda>x. x = 0) zs)"
    unfolding traced_def by (elim conjE)
  have f: "fst res = (if fst ra \<noteq> 0 then vorbis_error_to_averror E (fst ra) else 0)"
    and sn: "snd res = snd ra"
    by (simp_all add: res_def r)
  have "if fst res = 0 then list_all (\<lambda>x. x = 0) (returns L ?new ?h)
      else \<exists>x zs. returns L ?new ?h = x # zs \<and> x \<noteq> 0 \<and>
             list_all (\<lambda>x. x = 0) zs \<and> fst res = vorbis_error_to_averror E x"
  proof (cases "fst ra = 0")
    case True
    with c have "list_all (\<lambda>x. x = 0) (returns L ?new ?h)" by auto
    with True show ?thesis by (simp add: f)
  next
    case False
    with c obtain zs where "returns L ?new ?h = fst ra # zs" "list_all (\<lambda>x. x = 0) zs"
      by auto
    with False averror_nonzero [OF av, of "fst ra"] show ?thesis
      by (simp add: f)
  qed
  with s sn show ?thesis by metis
qed

lemma returns_status:
  "status_call c \<Longrightarrow> returns L (c # new) h = lib_ret L (c # new @ h) # returns L new h"
  "\<not> status_call c \<Longrightarrow> returns L (c # new) h = returns L new h"
  by simp_all

text \<open>The calls of the first part of \<open>oggvorbis_encode_init\<close> and what they returned.\<close>

lemma init_calls_traced:
  assumes av: "averror_ok E"
  shows "case init_calls E L a of
       Inl (r, e) \<Rightarrow>
         \<exists>new x zs. vorbis (priv_data e) = new @ vorbis (priv_data a) \<and>
           returns L new (vorbis (priv_data a)) = x # zs \<and> x \<noteq> 0 \<and>
           list_all (\<lambda>x. x = 0) zs \<and> r = vorbis_error_to_averror E x
     | Inr a7 \<Rightarrow>
         \<exists>new. vorbis (priv_data a7) = new @ vorbis (priv_data a) \<and>
           list_all (\<lambda>x. x = 0) (returns L new (vorbis (priv_data a)))"
proof -
  let ?h = "vorbis (priv_data a)"
  let ?a0 = "vcall Vorbis_info_init a"
  define ra where "ra = oggvorbis_init_encoder E L ?a0"
  define a2 where "a2 = vcall Vorbis_analysis_init (snd ra)"
  define a4 where
    "a4 = vcall Vorbis_block_init (a2\<lparr>priv_data := (priv_data a2)\<lparr>dsp_initialized := 1\<rparr>\<rparr>)"
  define a7 where "a7 = vcall Vorbis_analysis_headerout
        (vcall (Vorbis_comment_add_tag ''encoder'' (LIBAVCODEC_IDENT E))
           (vcall Vorbis_comment_init a4))"
  note eq = init_calls_eq [of E L a, folded ra_def, folded a2_def, folded a4_def, folded a7_def]
  from init_encoder_calls [OF av, of L ?a0, folded ra_def] obtain n0 where
    s: "snd ra = ?a0\<lparr>priv_data := (priv_data ?a0)\<lparr>vorbis := n0 @ vorbis (priv_data ?a0)\<rparr>\<rparr>"
    and c: "if fst ra = 0 then list_all (\<lambda>x. x = 0) (returns L n0 (vorbis (priv_data ?a0)))
      else \<exists>x zs. returns L n0 (vorbis (priv_data ?a0)) = x # zs \<and> x \<noteq> 0 \<and>
             list_all (\<lambda>x. x = 0) zs \<and> fst ra = vorbis_error_to_averror E x"
    by blast
  define n1 where "n1 = n0 @ [Vorbis_info_init]"
  have h0: "vorbis (priv_data ?a0) = Vorbis_info_init # ?h"
    by (simp add: vcall_fields)
  have v1: "vorbis (priv_data (snd ra)) = n1 @ ?h"
    by (subst s) (simp add: h0 n1_def)
  have r1: "returns L n1 ?h = returns L n0 (vorbis (priv_data ?a0))"
    by (simp add: n1_def returns_append h0)
  have v2: "vorbis (priv_data a2) = (Vorbis_analysis_init # n1) @ ?h"
    by (simp add: a2_def vcall_fields v1)
  have v4: "vorbis (priv_data a4) = (Vorbis_block_init # Vorbis_analysis_init # n1) @ ?h"
    by (simp add: a4_def vcall_fields v2)
  have v7: "vorbis (priv_data a7)
      = (Vorbis_analysis_headerout # Vorbis_comment_add_tag ''encoder'' (LIBAVCODEC_IDENT E)
         # Vorbis_comment_init # Vorbis_block_init # Vorbis_analysis_init # n1) @ ?h"
    by (simp add: a7_def vcall_fields v4)
  have r2: "returns L (Vorbis_analysis_init # n1) ?h = vret L a2 # returns L n1 ?h"
    by (simp add: vret_eq v2)
  have r4: "returns L (Vorbis_block_init # Vorbis_analysis_init # n1) ?h
      = vret L a4 # vret L a2 # returns L n1 ?h"
    by (simp add: vret_eq v2 v4)
  have r7: "returns L (Vorbis_analysis_headerout
         # Vorbis_comment_add_tag ''encoder'' (LIBAVCODEC_IDENT E)
         # Vorbis_comment_init # Vorbis_block_init # Vorbis_analysis_init # n1) ?h
      = vret L a7 # vret L a4 # vret L a2 # returns L n1 ?h"
    by (simp add: vret_eq v2 v4 v7)
  show ?thesis
  proof (cases "fst ra = 0")
    case False
    with c obtain x zs where "returns L n1 ?h = x # zs" "x \<noteq> 0" "list_all (\<lambda>x. x = 0) zs"
      "fst ra = vorbis_error_to_averror E x"
      unfolding r1 by auto
    with v1 have "\<exists>new x zs. vorbis (priv_data (snd ra)) = new @ ?h \<and>
           returns L new ?h = x # zs \<and> x \<noteq> 0 \<and>
           list_all (\<lambda>x. x = 0) zs \<and> fst ra = vorbis_error_to_averror E x"
      by blast
    with False show ?thesis
      by (cases ra) (simp add: eq)
  next
    case True
    with c have z: "list_all (\<lambda>x. x = 0) (returns L n1 ?h)"
      unfolding r1 by simp
    show ?thesis
    proof (cases "vret L a2 = 0")
      case False
      with z r2 v2 have "\<exists>new x zs. vorbis (priv_data a2) = new @ ?h \<and>
           returns L new ?h = x # zs \<and> x \<noteq> 0 \<and>
           list_all (\<lambda>x. x = 0) zs \<and>
           vorbis_error_to_averror E (vret L a2) = vorbis_error_to_averror E x"
        by blast
      with True False show ?thesis
        by (simp add: eq)
    next
      case i2: True
      show ?thesis
      proof (cases "vret L a4 = 0")
        case False
        from z i2 have "list_all (\<lambda>x. x = 0) (vret L a2 # returns L n1 ?h)" by simp
        with r4 v4 False have "\<exists>new x zs. vorbis (priv_data a4) = new @ ?h \<and>
           returns L new ?h = x # zs \<and> x \<noteq> 0 \<and>
           list_all (\<lambda>x. x = 0) zs \<and>
           vorbis_error_to_averror E (vret L a4) = vorbis_error_to_averror E x"
          by blast
        with True i2 False show ?thesis
          by (simp add: eq)
      next
        case i4: True
        show ?thesis
        proof (cases "vret L a7 = 0")
          case False
          from z i2 i4 have "list_all (\<lambda>x. x = 0) (vret L a4 # vret L a2 # returns L n1 ?h)"
            by simp
          with r7 v7 False have "\<exists>new x zs. vorbis (priv_data a7) = new @ ?h \<and>
             returns L new ?h = x # zs \<and> x \<noteq> 0 \<and>
             list_all (\<lambda>x. x = 0) zs \<and>
             vorbis_error_to_averror E (vret L a7) = vorbis_error_to_averror E x"
            by blast
          with True i2 i4 False show ?thesis
            by (simp add: eq)
        next
          case i7: True
          from z i2 i4 i7
          have "list_all (\<lambda>x. x = 0) (vret L a7 # vret L a4 # vret L a2 # returns L n1 ?h)"
            by simp
          with r7 v7 have "\<exists>new. vorbis (priv_data a7) = new @ ?h \<and>
             list_all (\<lambda>x. x = 0) (returns L new ?h)"
            by metis
          with True i2 i4 i7 show ?thesis
            by (simp add: eq)
        qed
      qed
    qed
  qed
qed

text \<open>When the first part succeeds, the headers are those of the encoder set up.\<close>

lemma init_calls_Inr:
  assumes i: "init_calls E L a = Inr a7"
  shows "lib_headers L (vorbis (priv_data a7)) = init_headers E L a"
    and "extradata_size (a7\<lparr>extradata_size := n\<rparr>) = n"
proof -
  define ra where "ra = oggvorbis_init_encoder E L (vcall Vorbis_info_init a)"
  define a2 where "a2 = vcall Vorbis_analysis_init (snd ra)"
  define a4 where
    "a4 = vcall Vorbis_block_init (a2\<lparr>priv_data := (priv_data a2)\<lparr>dsp_initialized := 1\<rparr>\<rparr>)"
  define a7' where "a7' = vcall Vorbis_analysis_headerout
        (vcall (Vorbis_comment_add_tag ''encoder'' (LIBAVCODEC_IDENT E))
           (vcall Vorbis_comment_init a4))"
  note eq = init_calls_eq [of E L a, folded ra_def, folded a2_def, folded a4_def, folded a7'_def]
  from i have a7: "a7 = a7'"
    by (simp add: eq split: if_splits)
  have "vorbis (priv_data a7')
      = [Vorbis_analysis_headerout, Vorbis_comment_add_tag ''encoder'' (LIBAVCODEC_IDENT E),
         Vorbis_comment_init, Vorbis_block_init, Vorbis_analysis_init]
        @ vorbis (priv_data (snd ra))"
    by (simp add: a7'_def a4_def a2_def vcall_fields)
  then show "lib_headers L (vorbis (priv_data a7)) = init_headers E L a"
    by (simp add: a7 init_headers_def ra_def)
  show "extradata_size (a7\<lparr>extradata_size := n\<rparr>) = n" by simp
qed

text \<open>The second part of \<open>oggvorbis_encode_init\<close>, for headers that are packets: the
  packing stays inside the memory allocated and ends at the size computed before.\<close>

lemma encode_init_Inr:
  fixes h1 h2 h3 :: "ogg_packet \<times> byte list"
  defines "b1 \<equiv> sint (bytes (fst h1))" and "b2 \<equiv> sint (bytes (fst h2))"
    and "b3 \<equiv> sint (bytes (fst h3))"
  defines "S \<equiv> 1 + xiph_len b1 + xiph_len b2 + b3"
  assumes i: "init_calls E L a = Inr a7"
    and hs: "lib_headers L (vorbis (priv_data a7)) = (h1, h2, h3)"
    and ok: "headers_ok (h1, h2, h3)"
    and pad: "S + int (FF_INPUT_BUFFER_PADDING_SIZE E) < 2 ^ 31"
  shows "oggvorbis_encode_init E L H a =
     (case av_malloc H (S + int (FF_INPUT_BUFFER_PADDING_SIZE E)) of
        None \<Rightarrow> init_error (AVERROR_ENOMEM E) (a7\<lparr>extradata_size := S, extradata := None\<rparr>)
      | Some junk \<Rightarrow>
          (case avcodec_alloc_frame H of
             None \<Rightarrow>
               init_error (AVERROR_ENOMEM E)
                 ((vcall Vorbis_comment_clear
                     (a7\<lparr>extradata_size := S,
                         extradata := Some
                           ([2] @ fst (av_xiphlacing (nat b1)) @ fst (av_xiphlacing (nat b2))
                            @ payload h1 @ payload h2 @ payload h3
                            @ drop (nat S)
                                (map junk [0..<nat (S + int (FF_INPUT_BUFFER_PADDING_SIZE E))]))\<rparr>))
                  \<lparr>frame_size := OGGVORBIS_FRAME_SIZE, coded_frame := None\<rparr>)
           | Some fr \<Rightarrow>
               Return 0
                 ((vcall Vorbis_comment_clear
                     (a7\<lparr>extradata_size := S,
                         extradata := Some
                           ([2] @ fst (av_xiphlacing (nat b1)) @ fst (av_xiphlacing (nat b2))
                            @ payload h1 @ payload h2 @ payload h3
                            @ drop (nat S)
                                (map junk [0..<nat (S + int (FF_INPUT_BUFFER_PADDING_SIZE E))]))\<rparr>))
                  \<lparr>frame_size := OGGVORBIS_FRAME_SIZE, coded_frame := Some fr\<rparr>)))"
proof -
  from ok have p1: "packet_ok h1" and p2: "packet_ok h2" and p3: "packet_ok h3"
    and small: "S < 2 ^ 31"
    by (simp_all add: headers_ok_def S_def b1_def b2_def b3_def)
  have nn: "0 \<le> b1" "0 \<le> b2" "0 \<le> b3"
    using p1 p2 p3 by (simp_all add: packet_ok_def b1_def b2_def b3_def)
  have x: "xiph_len b1 = 1 + b1 div 255 + b1" "xiph_len b2 = 1 + b2 div 255 + b2"
    using nn by (simp_all add: xiph_len_nonneg)
  have d: "0 \<le> b1 div 255" "0 \<le> b2 div 255"
    using nn by (simp_all add: pos_imp_zdiv_nonneg_iff)
  have S: "S = 1 + (1 + b1 div 255) + (1 + b2 div 255) + b1 + b2 + b3"
    by (simp add: S_def x)
  have S0: "0 \<le> S" using nn d S by simp
  have t1: "to_int b1 = b1" "to_int b2 = b2"
    using nn d S small by (simp_all add: to_int_id)
  have tS: "to_int S = S" "to_uint S = S"
    using S0 small by (simp_all add: to_int_id to_uint_id)
  let ?T = "S + int (FF_INPUT_BUFFER_PADDING_SIZE E)"
  have sz: "to_int (1 + xiph_len (to_int b1) + xiph_len (to_int b2) + b3) = S"
    by (simp add: t1 tS S_def [symmetric])
  have pk: "pack_headers (map junk [0..<nat ?T]) h1 h2 h3
      = Some ([2] @ fst (av_xiphlacing (nat b1)) @ fst (av_xiphlacing (nat b2))
             @ payload h1 @ payload h2 @ payload h3 @ drop (nat S) (map junk [0..<nat ?T]), S)"
    for junk :: "nat \<Rightarrow> byte"
    unfolding S_def b1_def b2_def b3_def
    by (rule pack_headers_ok [OF ok]) (use S0 in \<open>simp add: S_def b1_def b2_def b3_def\<close>)
  have T: "to_size_t (to_int ?T) = ?T"
    using S0 pad by (simp add: to_int_id to_size_t_id)
  show ?thesis
    using sz pk tS T
    unfolding S_def b1_def b2_def b3_def
    by (simp add: oggvorbis_encode_init_def i hs Let_def split: option.splits)
qed

subsection \<open>The rate mode\<close>



subsection \<open>The extradata\<close>

lemma lib_headers_okD:
  assumes "lib_headers_ok E L" and "lib_headers L h = (h1, h2, h3)"
  shows "headers_ok (h1, h2, h3)"
    and "1 + xiph_len (sint (bytes (fst h1))) + xiph_len (sint (bytes (fst h2)))
           + sint (bytes (fst h3)) + int (FF_INPUT_BUFFER_PADDING_SIZE E) < 2 ^ 31"
proof -
  from assms(1) have a: "headers_ok (lib_headers L h) \<and>
          (let (h1, h2, h3) = lib_headers L h in
           1 + xiph_len (sint (bytes (fst h1))) + xiph_len (sint (bytes (fst h2)))
             + sint (bytes (fst h3)) + int (FF_INPUT_BUFFER_PADDING_SIZE E) < 2 ^ 31)"
    unfolding lib_headers_ok_def by (rule spec)
  from a show "headers_ok (h1, h2, h3)" by (simp add: assms(2))
  from a show "1 + xiph_len (sint (bytes (fst h1))) + xiph_len (sint (bytes (fst h2)))
           + sint (bytes (fst h3)) + int (FF_INPUT_BUFFER_PADDING_SIZE E) < 2 ^ 31"
    by (simp add: assms(2))
qed

lemma init_error_fields:
  "init_error r e = Return r (snd (oggvorbis_encode_close e))"
  "extradata (snd (oggvorbis_encode_close e)) = None"
  "coded_frame (snd (oggvorbis_encode_close e)) = None"
  by (simp_all add: init_error_def oggvorbis_encode_close_def Let_def)

text \<open>Every outcome of \<open>oggvorbis_encode_init\<close> with an encoder whose headers are
  packets: an error and the context closed, or 0 and the extradata packed.\<close>

lemma encode_init_outcome [consumes 1, case_names error no_memory no_frame success]:
  fixes E L H a
  assumes hk: "lib_headers_ok E L"
  obtains (error) r e where "init_calls E L a = Inl (r, e)"
      "oggvorbis_encode_init E L H a = Return r (snd (oggvorbis_encode_close e))"
  | (no_memory) a7 h1 h2 h3 where "init_calls E L a = Inr a7"
      "init_headers E L a = (h1, h2, h3)"
      "av_malloc H (1 + xiph_len (sint (bytes (fst h1))) + xiph_len (sint (bytes (fst h2)))
                      + sint (bytes (fst h3)) + int (FF_INPUT_BUFFER_PADDING_SIZE E)) = None"
      "oggvorbis_encode_init E L H a
         = Return (AVERROR_ENOMEM E)
             (snd (oggvorbis_encode_close
                (a7\<lparr>extradata_size := 1 + xiph_len (sint (bytes (fst h1)))
                        + xiph_len (sint (bytes (fst h2))) + sint (bytes (fst h3)),
                     extradata := None\<rparr>)))"
  | (no_frame) a7 h1 h2 h3 junk p where "init_calls E L a = Inr a7"
      "init_headers E L a = (h1, h2, h3)"
      "av_malloc H (1 + xiph_len (sint (bytes (fst h1))) + xiph_len (sint (bytes (fst h2)))
                      + sint (bytes (fst h3)) + int (FF_INPUT_BUFFER_PADDING_SIZE E)) = Some junk"
      "avcodec_alloc_frame H = None"
      "oggvorbis_encode_init E L H a
         = Return (AVERROR_ENOMEM E)
             (snd (oggvorbis_encode_close
                ((vcall Vorbis_comment_clear
                    (a7\<lparr>extradata_size := 1 + xiph_len (sint (bytes (fst h1)))
                            + xiph_len (sint (bytes (fst h2))) + sint (bytes (fst h3)),
                         extradata := Some p\<rparr>))
                 \<lparr>frame_size := OGGVORBIS_FRAME_SIZE, coded_frame := None\<rparr>)))"
  | (success) a7 h1 h2 h3 junk fr where "init_calls E L a = Inr a7"
      "init_headers E L a = (h1, h2, h3)"
      "av_malloc H (1 + xiph_len (sint (bytes (fst h1))) + xiph_len (sint (bytes (fst h2)))
                      + sint (bytes (fst h3)) + int (FF_INPUT_BUFFER_PADDING_SIZE E)) = Some junk"
      "avcodec_alloc_frame H = Some fr"
      "oggvorbis_encode_init E L H a
         = Return 0
             ((vcall Vorbis_comment_clear
                 (a7\<lparr>extradata_size := 1 + xiph_len (sint (bytes (fst h1)))
                         + xiph_len (sint (bytes (fst h2))) + sint (bytes (fst h3)),
                      extradata := Some
                        ([2] @ fst (av_xiphlacing (nat (sint (bytes (fst h1)))))
                         @ fst (av_xiphlacing (nat (sint (bytes (fst h2)))))
                         @ payload h1 @ payload h2 @ payload h3
                         @ drop (nat (1 + xiph_len (sint (bytes (fst h1)))
                                      + xiph_len (sint (bytes (fst h2))) + sint (bytes (fst h3))))
                             (map junk [0..<nat (1 + xiph_len (sint (bytes (fst h1)))
                                      + xiph_len (sint (bytes (fst h2))) + sint (bytes (fst h3))
                                      + int (FF_INPUT_BUFFER_PADDING_SIZE E))]))\<rparr>))
              \<lparr>frame_size := OGGVORBIS_FRAME_SIZE, coded_frame := Some fr\<rparr>)"
proof (cases "init_calls E L a")
  case (Inl x)
  obtain r e where x: "x = (r, e)" by (cases x)
  have "oggvorbis_encode_init E L H a = Return r (snd (oggvorbis_encode_close e))"
    by (simp add: oggvorbis_encode_init_def Inl x init_error_fields(1))
  with Inl x show ?thesis by (intro error) simp_all
next
  case (Inr a7)
  obtain h1 h2 h3 where hs: "init_headers E L a = (h1, h2, h3)"
    by (cases "init_headers E L a") auto
  note h7 = init_calls_Inr(1) [OF Inr, unfolded hs]
  note ok = lib_headers_okD [OF hk h7]
  note eq = encode_init_Inr [OF Inr h7 ok, of H]
  show ?thesis
  proof (cases "av_malloc H (1 + xiph_len (sint (bytes (fst h1))) + xiph_len (sint (bytes (fst h2)))
                      + sint (bytes (fst h3)) + int (FF_INPUT_BUFFER_PADDING_SIZE E))")
    case None
    with eq Inr hs show ?thesis
      by (intro no_memory) (simp_all add: init_error_fields(1))
  next
    case (Some junk)
    show ?thesis
    proof (cases "avcodec_alloc_frame H")
      case None
      with eq Inr hs Some show ?thesis
        by (intro no_frame) (simp_all add: init_error_fields(1))
    next
      case (Some fr)
      with eq Inr hs \<open>av_malloc H _ = Some junk\<close> show ?thesis
        by (intro success) simp_all
    qed
  qed
qed

lemma returns_zero:
  "(\<forall>h. lib_ret L h = 0) \<Longrightarrow> list_all (\<lambda>x. x = 0) (returns L new h)"
  by (induction new) simp_all

lemma init_calls_succeed:
  assumes av: "averror_ok E" and z: "\<forall>h. lib_ret L h = 0"
  shows "\<exists>a7. init_calls E L a = Inr a7"
proof (cases "init_calls E L a")
  case (Inl x)
  obtain r e where x: "x = (r, e)" by (cases x)
  from init_calls_traced [OF av, where L = L and a = a] obtain new y zs where
    "returns L new (vorbis (priv_data a)) = y # zs" "y \<noteq> 0"
    by (auto simp: Inl x)
  with returns_zero [OF z, of new "vorbis (priv_data a)"] show ?thesis by simp
next
  case (Inr a7)
  then show ?thesis by blast
qed

lemma headers_length:
  assumes ok: "headers_ok (h1, h2, h3)"
  shows "int (length ([2 :: byte] @ fst (av_xiphlacing (nat (sint (bytes (fst h1)))))
                @ fst (av_xiphlacing (nat (sint (bytes (fst h2)))))
                @ payload h1 @ payload h2 @ payload h3))
     = 1 + xiph_len (sint (bytes (fst h1))) + xiph_len (sint (bytes (fst h2)))
       + sint (bytes (fst h3))"
    and "0 \<le> 1 + xiph_len (sint (bytes (fst h1))) + xiph_len (sint (bytes (fst h2)))
       + sint (bytes (fst h3))"
proof -
  from ok have p: "packet_ok h1" "packet_ok h2" "packet_ok h3"
    by (simp_all add: headers_ok_def)
  then have nn: "0 \<le> sint (bytes (fst h1))" "0 \<le> sint (bytes (fst h2))"
    "0 \<le> sint (bytes (fst h3))"
    by (simp_all add: packet_ok_def)
  have d: "0 \<le> sint (bytes (fst h1)) div 255" "0 \<le> sint (bytes (fst h2)) div 255"
    using nn by (simp_all add: pos_imp_zdiv_nonneg_iff)
  show "int (length ([2 :: byte] @ fst (av_xiphlacing (nat (sint (bytes (fst h1)))))
                @ fst (av_xiphlacing (nat (sint (bytes (fst h2)))))
                @ payload h1 @ payload h2 @ payload h3))
     = 1 + xiph_len (sint (bytes (fst h1))) + xiph_len (sint (bytes (fst h2)))
       + sint (bytes (fst h3))"
    using nn by (simp add: length_av_xiphlacing length_payload [OF p(1)] length_payload [OF p(2)]
        length_payload [OF p(3)] xiph_len_nonneg zdiv_int)
  show "0 \<le> 1 + xiph_len (sint (bytes (fst h1))) + xiph_len (sint (bytes (fst h2)))
       + sint (bytes (fst h3))"
    using nn d by (simp add: xiph_len_nonneg)
qed

text \<open>
  C3. The extradata. With an encoder whose header packets are packets,
  \<open>oggvorbis_encode_init\<close> returns. When it returns 0, the extradata holds the byte 2,
  the Xiph lacing of the length of the first header, the Xiph lacing of the length of the
  comment header, the bytes of the three header packets in their order, and the padding;
  \<open>extradata_size\<close> is \<open>1 + xiph_len(header.bytes) + xiph_len(header_comm.bytes)
  + header_code.bytes\<close>, which is the number of bytes before the padding. When it returns
  another value there is no extradata. It returns 0 when no call of libvorbis fails and
  the memory and the frame are there.
\<close>

theorem extradata_packed:
  assumes av: "averror_ok E" and hk: "lib_headers_ok E L"
  shows "(\<exists>r a'. oggvorbis_encode_init E L H a = Return r a' \<and>
       (if r = 0
        then (case init_headers E L a of
                (h1, h2, h3) \<Rightarrow>
                  \<exists>pad. extradata a'
                         = Some ([2] @ fst (av_xiphlacing (nat (sint (bytes (fst h1)))))
                                 @ fst (av_xiphlacing (nat (sint (bytes (fst h2)))))
                                 @ payload h1 @ payload h2 @ payload h3 @ pad) \<and>
                    length pad = FF_INPUT_BUFFER_PADDING_SIZE E \<and>
                    extradata_size a'
                      = 1 + xiph_len (sint (bytes (fst h1))) + xiph_len (sint (bytes (fst h2)))
                        + sint (bytes (fst h3)) \<and>
                    extradata_size a'
                      = int (length ([2 :: byte] @ fst (av_xiphlacing (nat (sint (bytes (fst h1)))))
                                @ fst (av_xiphlacing (nat (sint (bytes (fst h2)))))
                                @ payload h1 @ payload h2 @ payload h3)))
        else extradata a' = None)) \<and>
    ((\<forall>h. lib_ret L h = 0) \<and> (\<forall>n. av_malloc H n \<noteq> None) \<and> avcodec_alloc_frame H \<noteq> None \<longrightarrow>
       (\<exists>a'. oggvorbis_encode_init E L H a = Return 0 a'))"
proof (intro conjI impI)
  have nz: "AVERROR_ENOMEM E \<noteq> 0" using av by (simp add: averror_ok_def)
  show "\<exists>r a'. oggvorbis_encode_init E L H a = Return r a' \<and>
       (if r = 0
        then (case init_headers E L a of
                (h1, h2, h3) \<Rightarrow>
                  \<exists>pad. extradata a'
                         = Some ([2] @ fst (av_xiphlacing (nat (sint (bytes (fst h1)))))
                                 @ fst (av_xiphlacing (nat (sint (bytes (fst h2)))))
                                 @ payload h1 @ payload h2 @ payload h3 @ pad) \<and>
                    length pad = FF_INPUT_BUFFER_PADDING_SIZE E \<and>
                    extradata_size a'
                      = 1 + xiph_len (sint (bytes (fst h1))) + xiph_len (sint (bytes (fst h2)))
                        + sint (bytes (fst h3)) \<and>
                    extradata_size a'
                      = int (length ([2 :: byte] @ fst (av_xiphlacing (nat (sint (bytes (fst h1)))))
                                @ fst (av_xiphlacing (nat (sint (bytes (fst h2)))))
                                @ payload h1 @ payload h2 @ payload h3)))
        else extradata a' = None)"
    using hk
  proof (cases rule: encode_init_outcome [where a = a and H = H])
    case (error r e)
    from init_calls_traced [OF av, where L = L and a = a] obtain x where
      "x \<noteq> 0" "r = vorbis_error_to_averror E x"
      by (auto simp: error(1))
    with averror_nonzero [OF av, of x] have "r \<noteq> 0" by simp
    with error(2) show ?thesis
      by (simp add: init_error_fields)
  next
    case (no_memory a7 h1 h2 h3)
    with nz show ?thesis
      by (simp add: init_error_fields)
  next
    case (no_frame a7 h1 h2 h3 junk p)
    with nz show ?thesis
      by (simp add: init_error_fields)
  next
    case (success a7 h1 h2 h3 junk fr)
    let ?S = "1 + xiph_len (sint (bytes (fst h1))) + xiph_len (sint (bytes (fst h2)))
              + sint (bytes (fst h3))"
    let ?pad = "drop (nat ?S) (map junk [0..<nat (?S + int (FF_INPUT_BUFFER_PADDING_SIZE E))])"
    note h7 = init_calls_Inr(1) [OF success(1), unfolded success(2)]
    note ok = lib_headers_okD(1) [OF hk h7]
    note len = headers_length [OF ok]
    have lp: "length ?pad = FF_INPUT_BUFFER_PADDING_SIZE E"
      using len(2) by (simp add: nat_add_distrib)
    show ?thesis
      unfolding success(5)
      using lp len(1)
      by (simp add: success(2) vcall_fields)
  qed
next
  assume a: "(\<forall>h. lib_ret L h = 0) \<and> (\<forall>n. av_malloc H n \<noteq> None) \<and> avcodec_alloc_frame H \<noteq> None"
  then have z: "\<forall>h. lib_ret L h = 0" by simp
  from init_calls_succeed [OF av z, of a] obtain a7 where i: "init_calls E L a = Inr a7" ..
  show "\<exists>a'. oggvorbis_encode_init E L H a = Return 0 a'"
    using hk
  proof (cases rule: encode_init_outcome [where a = a and H = H])
    case (error r e)
    with i show ?thesis by simp
  next
    case (no_memory a7 h1 h2 h3)
    from a have "av_malloc H (1 + xiph_len (sint (bytes (fst h1)))
        + xiph_len (sint (bytes (fst h2))) + sint (bytes (fst h3))
        + int (FF_INPUT_BUFFER_PADDING_SIZE E)) \<noteq> None"
      by blast
    with no_memory(3) show ?thesis by simp
  next
    case (no_frame a7 h1 h2 h3 junk p)
    from a have "avcodec_alloc_frame H \<noteq> None" by blast
    with no_frame(4) show ?thesis by simp
  next
    case (success a7 h1 h2 h3 junk fr)
    then show ?thesis by blast
  qed
qed

lemma E0_ok: "averror_ok E0" "switch_ok E0"
  by (simp_all add: averror_ok_def switch_ok_def E0_def)

lemma headers_ok_H1: "headers_ok H1"
  by (simp add: headers_ok_def H1_def packet_ok_def xiph_len_def c_div_def)

lemma lib_headers_ok_L0: "lib_headers_ok E0 L0"
  using headers_ok_H1
  by (simp add: lib_headers_ok_def L0_def) (simp add: H1_def xiph_len_def c_div_def E0_def)

theorem extradata_packed_witness:
  "averror_ok E0 \<and> lib_headers_ok E0 L0 \<and> (\<forall>h. lib_ret L0 h = 0) \<and>
   (\<forall>n. av_malloc H0 n \<noteq> None) \<and> avcodec_alloc_frame H0 \<noteq> None \<and>
   (\<exists>a' pad. oggvorbis_encode_init E0 L0 H0 A0 = Return 0 a' \<and>
      extradata a' = Some ([2, 2, 1, 1, 118, 3, 5, 6, 7, 8] @ pad) \<and> length pad = 8 \<and>
      extradata_size a' = 10)"
proof -
  have z: "\<forall>h. lib_ret L0 h = 0" by (simp add: L0_def)
  have m: "\<forall>n. av_malloc H0 n \<noteq> None" "avcodec_alloc_frame H0 \<noteq> None"
    by (simp_all add: H0_def)
  have hs: "init_headers E0 L0 A0 = H1"
    by (simp add: init_headers_def L0_def)
  have pd: "FF_INPUT_BUFFER_PADDING_SIZE E0 = 8" by (simp add: E0_def)
  note t = extradata_packed [OF E0_ok(1) lib_headers_ok_L0, of H0 A0]
  from t z m obtain a' where run: "oggvorbis_encode_init E0 L0 H0 A0 = Return 0 a'"
    by blast
  from t run have "\<exists>pad. extradata a' = Some ([2, 2, 1, 1, 118, 3, 5, 6, 7, 8] @ pad) \<and>
      length pad = 8 \<and> extradata_size a' = 10"
    by (simp add: hs pd) (simp add: H1_def av_xiphlacing_eq payload_def xiph_len_def c_div_def)
  with run E0_ok(1) lib_headers_ok_L0 z m show ?thesis by blast
qed



end
